theory Spec2Isabelle
  imports Complex_Main "HOL-Library.AList" "HOL-Library.Multiset"
begin

section \<open>Calendar dates\<close>

text \<open>
  The application computes with JavaScript \<open>Date\<close> objects in local time. A \<open>Date\<close> is
  modelled by its local calendar fields, named after the getters that read them
  (\<open>getMonth\<close> is zero-based, \<open>getDate\<close> is the day of the month), together with the
  milliseconds elapsed within the day. Its time value is computed from the fields with the
  day arithmetic of the language standard (\<open>DayFromYear\<close>, \<open>MakeDay\<close>, \<open>MakeDate\<close>). The
  offset between local time and UTC is taken to be constant, so that comparing local time
  values is comparing instants.
\<close>

record Date =
  getFullYear :: int
  getMonth :: int
  getDate :: int
  timeWithinDay :: int

definition msPerDay :: int where
  "msPerDay = 86400000"

definition InLeapYear :: "int \<Rightarrow> bool" where
  "InLeapYear y = (if y mod 4 \<noteq> 0 then False
                   else if y mod 100 \<noteq> 0 then True
                   else if y mod 400 \<noteq> 0 then False
                   else True)"

definition DaysInYear :: "int \<Rightarrow> int" where
  "DaysInYear y = (if InLeapYear y then 366 else 365)"

definition DayFromYear :: "int \<Rightarrow> int" where
  "DayFromYear y =
     365 * (y - 1970) + (y - 1969) div 4 - (y - 1901) div 100 + (y - 1601) div 400"

text \<open>The number of days of month \<open>m\<close> (0 is January) in year \<open>y\<close>.\<close>

definition DaysInMonth :: "int \<Rightarrow> int \<Rightarrow> int" where
  "DaysInMonth y m =
     (if m = 1 then (if InLeapYear y then 29 else 28)
      else if m = 3 \<or> m = 5 \<or> m = 8 \<or> m = 10 then 30
      else 31)"

text \<open>The day within year \<open>y\<close> on which month \<open>m\<close> starts.\<close>

definition DayWithinYearOfMonth :: "int \<Rightarrow> int \<Rightarrow> int" where
  "DayWithinYearOfMonth y m =
     (let leap = (if InLeapYear y then 1 else 0) in
      if m = 0 then 0
      else if m = 1 then 31
      else if m = 2 then 59 + leap
      else if m = 3 then 90 + leap
      else if m = 4 then 120 + leap
      else if m = 5 then 151 + leap
      else if m = 6 then 181 + leap
      else if m = 7 then 212 + leap
      else if m = 8 then 243 + leap
      else if m = 9 then 273 + leap
      else if m = 10 then 304 + leap
      else 334 + leap)"

text \<open>
  \<open>MakeDay year month date\<close> is the day number of the given day: months outside
  \<open>0..11\<close> carry into the year, and a day of the month outside the month carries into the
  neighbouring months, since the day number is linear in it.
\<close>

definition MakeDay :: "int \<Rightarrow> int \<Rightarrow> int \<Rightarrow> int" where
  "MakeDay year month dt =
     (let ym = year + month div 12; mn = month mod 12
      in DayFromYear ym + DayWithinYearOfMonth ym mn + dt - 1)"

definition MakeDate :: "int \<Rightarrow> int \<Rightarrow> int" where
  "MakeDate day time = day * msPerDay + time"

text \<open>The day number of a date, and its time value in milliseconds.\<close>

definition Day :: "Date \<Rightarrow> int" where
  "Day d = MakeDay (getFullYear d) (getMonth d) (getDate d)"

definition valueOf :: "Date \<Rightarrow> int" where
  "valueOf d = MakeDate (Day d) (timeWithinDay d)"

text \<open>A \<open>Date\<close> object always denotes a day of the calendar and a time within that day.\<close>

definition valid_Date :: "Date \<Rightarrow> bool" where
  "valid_Date d \<longleftrightarrow>
     0 \<le> getMonth d \<and> getMonth d \<le> 11 \<and>
     1 \<le> getDate d \<and> getDate d \<le> DaysInMonth (getFullYear d) (getMonth d) \<and>
     0 \<le> timeWithinDay d \<and> timeWithinDay d < msPerDay"

text \<open>
  \<open>d.setFullYear(y)\<close> gives \<open>d\<close> the time value
  \<open>MakeDate (MakeDay y (getMonth d) (getDate d)) (timeWithinDay d)\<close>. The month and the day
  of the month are kept, except when the day does not exist in year \<open>y\<close> (29 February in a
  year that is not a leap year): then the day carries into the next month.
\<close>

definition setFullYear :: "int \<Rightarrow> Date \<Rightarrow> Date" where
  "setFullYear y d =
     (if getDate d \<le> DaysInMonth y (getMonth d)
      then d\<lparr>getFullYear := y\<rparr>
      else d\<lparr>getFullYear := y, getMonth := getMonth d + 1,
              getDate := getDate d - DaysInMonth y (getMonth d)\<rparr>)"

text \<open>\<open>d.setHours(0, 0, 0, 0)\<close>: the same day at midnight.\<close>

definition setHours0 :: "Date \<Rightarrow> Date" where
  "setHours0 d = d\<lparr>timeWithinDay := 0\<rparr>"

text \<open>
  \<open>d.setDate(dt)\<close> gives \<open>d\<close> the time value below. The application only compares the
  date it builds this way (\<open>next30Days\<close>) with others, so the model keeps the time value.
\<close>

definition setDate :: "int \<Rightarrow> Date \<Rightarrow> int" where
  "setDate dt d = MakeDate (MakeDay (getFullYear d) (getMonth d) dt) (timeWithinDay d)"

section \<open>Coworkers and upcoming birthdays\<close>

record coworker =
  cid :: string
  name :: string
  birthday :: "Date option"

record upcoming = coworker +
  nextBirthday :: Date

text \<open>
  The body of the \<open>map\<close> callback of \<open>upcomingBirthdays\<close> after the test for a missing
  birthday: the stored birthday is copied, moved to the year of \<open>today\<close> and, when that is
  before \<open>today\<close>, moved to the year after.
\<close>

definition resolveNextBirthday :: "Date \<Rightarrow> Date \<Rightarrow> Date" where
  "resolveNextBirthday today stored =
     (let birthday = setFullYear (getFullYear today) stored
      in if valueOf birthday < valueOf today
         then setFullYear (getFullYear today + 1) birthday
         else birthday)"

definition withNextBirthday :: "Date \<Rightarrow> coworker \<Rightarrow> upcoming option" where
  "withNextBirthday today cw =
     (case birthday cw of
        None \<Rightarrow> None
      | Some b \<Rightarrow> Some \<lparr>cid = cid cw, name = name cw, birthday = birthday cw,
                        nextBirthday = resolveNextBirthday today b\<rparr>)"

text \<open>
  \<open>upcomingBirthdays\<close>, with the current instant \<open>now\<close> (the value of \<open>new Date()\<close>) as a
  parameter. \<open>filter(Boolean)\<close> drops the null entries; \<open>sort\<close> is stable and orders by the
  difference of the time values.
\<close>

definition inWindow :: "Date \<Rightarrow> int \<Rightarrow> upcoming \<Rightarrow> bool" where
  "inWindow today next30Days cw \<longleftrightarrow>
     valueOf (nextBirthday cw) \<ge> valueOf today \<and> valueOf (nextBirthday cw) \<le> next30Days"

definition upcomingBirthdays :: "coworker list \<Rightarrow> Date \<Rightarrow> upcoming list" where
  "upcomingBirthdays coworkers now =
     (let today = setHours0 now;
          next30Days = setDate (getDate today + 30) today
      in sort_key (\<lambda>cw. valueOf (nextBirthday cw))
           (filter (inWindow today next30Days)
              (List.map_filter (withNextBirthday today) coworkers)))"

text \<open>
  The contract of the window in the words of the specification: a coworker with a stored
  birthday whose resolved next birthday falls within \<open>[today, today + 30 days]\<close>, both ends
  included.
\<close>

definition inNext30Days :: "Date \<Rightarrow> coworker \<Rightarrow> bool" where
  "inNext30Days today cw \<longleftrightarrow>
     (case birthday cw of
        None \<Rightarrow> False
      | Some b \<Rightarrow> valueOf today \<le> valueOf (resolveNextBirthday today b)
                \<and> valueOf (resolveNextBirthday today b) \<le> valueOf today + 30 * msPerDay)"

section \<open>Time zones\<close>

text \<open>
  The definitions above take the offset between local time and UTC to be constant. A zone
  with transitions enters \<open>Date\<close> in two places. Setting fields asks for a local date and
  time; when that time is skipped at a transition (the clock is put forward), the runtime
  takes the instant with the offset before the transition, whose local time is later by the
  length of the gap. And dates are compared as instants, not as local times. A zone is
  given by the two functions that say this: \<open>settle z d\<close> is the local date and time of
  the instant that the runtime gives for the requested local date and time \<open>d\<close> (it is
  \<open>d\<close> unless \<open>d\<close> is skipped), and \<open>utc z t\<close> is the instant of the local time value
  \<open>t\<close>.
\<close>

record zone =
  settle :: "Date \<Rightarrow> Date"
  utc :: "int \<Rightarrow> int"

text \<open>The local date and time \<open>d\<close> exists in the zone.\<close>

definition keeps :: "zone \<Rightarrow> Date \<Rightarrow> bool" where
  "keeps z d \<longleftrightarrow> settle z d = d"

text \<open>
  The operations of \<open>Date\<close> and \<open>upcomingBirthdays\<close> in a zone: every field setter is
  followed by \<open>settle\<close>, and every comparison is one of instants (\<open>getTime\<close>).
\<close>

definition getTime :: "zone \<Rightarrow> Date \<Rightarrow> int" where
  "getTime z d = utc z (valueOf d)"

definition setFullYear_in :: "zone \<Rightarrow> int \<Rightarrow> Date \<Rightarrow> Date" where
  "setFullYear_in z y d = settle z (setFullYear y d)"

definition setHours0_in :: "zone \<Rightarrow> Date \<Rightarrow> Date" where
  "setHours0_in z d = settle z (setHours0 d)"

definition setDate_in :: "zone \<Rightarrow> int \<Rightarrow> Date \<Rightarrow> int" where
  "setDate_in z dt d = utc z (setDate dt d)"

definition resolveNextBirthday_in :: "zone \<Rightarrow> Date \<Rightarrow> Date \<Rightarrow> Date" where
  "resolveNextBirthday_in z today stored =
     (let birthday = setFullYear_in z (getFullYear today) stored
      in if getTime z birthday < getTime z today
         then setFullYear_in z (getFullYear today + 1) birthday
         else birthday)"

definition withNextBirthday_in :: "zone \<Rightarrow> Date \<Rightarrow> coworker \<Rightarrow> upcoming option" where
  "withNextBirthday_in z today cw =
     (case birthday cw of
        None \<Rightarrow> None
      | Some b \<Rightarrow> Some \<lparr>cid = cid cw, name = name cw, birthday = birthday cw,
                        nextBirthday = resolveNextBirthday_in z today b\<rparr>)"

definition inWindow_in :: "zone \<Rightarrow> Date \<Rightarrow> int \<Rightarrow> upcoming \<Rightarrow> bool" where
  "inWindow_in z today next30Days cw \<longleftrightarrow>
     getTime z (nextBirthday cw) \<ge> getTime z today \<and> getTime z (nextBirthday cw) \<le> next30Days"

definition upcomingBirthdays_in :: "zone \<Rightarrow> coworker list \<Rightarrow> Date \<Rightarrow> upcoming list" where
  "upcomingBirthdays_in z coworkers now =
     (let today = setHours0_in z now;
          next30Days = setDate_in z (getDate today + 30) today
      in sort_key (\<lambda>cw. getTime z (nextBirthday cw))
           (filter (inWindow_in z today next30Days)
              (List.map_filter (withNextBirthday_in z today) coworkers)))"

section \<open>Contribution records\<close>

text \<open>
  A contributor entry is the object \<open>{ amount, status }\<close>; the status is a string. An object
  used as a dictionary is an association list: the keys in insertion order, each key once.
  \<open>AList.update\<close> is the assignment \<open>o[k] = v\<close> (also the spread \<open>{...o, [k]: v}\<close>): it
  replaces the value of a key that is present and appends a new key.
\<close>

record contribution_entry =
  amount :: real
  status :: string

type_synonym contributors_map = "(string \<times> contribution_entry) list"

text \<open>
  A document of the \<open>contributions\<close> collection. The code tests whether the field
  \<open>contributors\<close> is there before it reads it, so the field is optional.
\<close>

record contribution =
  birthdayCoworkerId :: string
  year :: int
  contributors :: "contributors_map option"

type_synonym contributions_map = "(string \<times> contribution) list"

text \<open>The decimal digits of a number, as a template literal prints them.\<close>

fun digits :: "nat \<Rightarrow> string" where
  "digits n = (if n < 10 then [''0123456789'' ! n]
               else digits (n div 10) @ [''0123456789'' ! (n mod 10)])"

declare digits.simps [simp del]

definition toString :: "int \<Rightarrow> string" where
  "toString i = (if i < 0 then ''-'' @ digits (nat (- i)) else digits (nat i))"

text \<open>The document identifier \<open>`${birthdayCoworkerId}_${new Date().getFullYear()}`\<close>.\<close>

definition contributionId :: "string \<Rightarrow> int \<Rightarrow> string" where
  "contributionId bdayCoworkerId thisYear = bdayCoworkerId @ ''_'' @ toString thisYear"

section \<open>The application state\<close>

text \<open>
  The state of the \<open>App\<close> component that the contribution handlers read and write. The
  snapshot listeners replace \<open>coworkers\<close> and \<open>contributions\<close> by the content of the
  collections of the store after every write. In this section and the next two the
  snapshots are identified with the collections, so that a write to the store acts on
  these fields: the handlers are described as they act when every write has reached the
  snapshot before the next interaction. The section on the store and the snapshots keeps
  the two apart. Every write is taken to succeed (a failed write is logged and changes
  nothing).
\<close>

record app =
  user :: "string option"
  isOrganizer :: bool
  coworkers :: "coworker list"
  contributions :: contributions_map
  isContributionModalOpen :: bool
  contributionTarget :: "(string \<times> string) option"

text \<open>
  \<open>setDoc(ref, data, { merge: true })\<close> on a contribution document: a document that does
  not exist is created from the data; in one that exists the fields of the data replace
  the stored ones, and a field that is a map is merged key by key. Every entry the
  application writes carries both \<open>amount\<close> and \<open>status\<close>, so merging an entry replaces it.
\<close>

definition mergeContributors ::
    "contributors_map option \<Rightarrow> contributors_map option \<Rightarrow> contributors_map option" where
  "mergeContributors stored given =
     (case given of
        None \<Rightarrow> stored
      | Some new \<Rightarrow> (case stored of None \<Rightarrow> Some new | Some old \<Rightarrow> Some (AList.merge old new)))"

definition setDoc_merge :: "string \<Rightarrow> contribution \<Rightarrow> contributions_map \<Rightarrow> contributions_map" where
  "setDoc_merge docId data docs =
     (case map_of docs docId of
        None \<Rightarrow> AList.update docId data docs
      | Some stored \<Rightarrow>
          AList.update docId
            (data\<lparr>contributors := mergeContributors (contributors stored) (contributors data)\<rparr>)
            docs)"

text \<open>
  \<open>updateContribution\<close>; \<open>thisYear\<close> is the value of \<open>new Date().getFullYear()\<close>. When the
  snapshot has no document for the identifier, the map is first filled with an unpaid
  entry for every coworker.
\<close>

definition updateContribution ::
    "int \<Rightarrow> string \<Rightarrow> string \<Rightarrow> contribution_entry \<Rightarrow> app \<Rightarrow> app" where
  "updateContribution thisYear bdayCoworkerId contributorId newContributionData s =
     (case user s of
        None \<Rightarrow> s
      | Some _ \<Rightarrow>
          (let contributionId = contributionId bdayCoworkerId thisYear;
               currentContributors =
                 (case map_of (contributions s) contributionId of
                    Some c \<Rightarrow> (case contributors c of Some cs \<Rightarrow> cs | None \<Rightarrow> [])
                  | None \<Rightarrow>
                      foldl (\<lambda>acc cw. AList.update (cid cw) \<lparr>amount = 0, status = ''unpaid''\<rparr> acc)
                        [] (coworkers s));
               updatedContributors =
                 AList.update contributorId newContributionData currentContributors
           in s\<lparr>contributions :=
                  setDoc_merge contributionId
                    \<lparr>birthdayCoworkerId = bdayCoworkerId, year = thisYear,
                     contributors = Some updatedContributors\<rparr>
                    (contributions s)\<rparr>))"

definition handlePledgeContribution :: "int \<Rightarrow> real \<Rightarrow> app \<Rightarrow> app" where
  "handlePledgeContribution thisYear amt s =
     (case contributionTarget s of
        Some (bdayCoworkerId, contributorId) \<Rightarrow>
          updateContribution thisYear bdayCoworkerId contributorId
            \<lparr>amount = amt, status = ''pledged''\<rparr> s
      | None \<Rightarrow> s)
     \<lparr>isContributionModalOpen := False, contributionTarget := None\<rparr>"

text \<open>
  \<open>handleContributionClick\<close>. \<open>contribution?.status || 'unpaid'\<close> reads an empty status as
  unpaid; \<open>contribution?.amount || 0\<close> is the amount.
\<close>

definition handleContributionClick ::
    "int \<Rightarrow> string \<Rightarrow> string \<Rightarrow> contribution_entry \<Rightarrow> app \<Rightarrow> app" where
  "handleContributionClick thisYear bdayCoworkerId contributorId contribution s =
     (let currentStatus = (if status contribution = [] then ''unpaid'' else status contribution);
          currentAmount = amount contribution
      in if currentStatus = ''unpaid'' then
           s\<lparr>contributionTarget := Some (bdayCoworkerId, contributorId),
             isContributionModalOpen := True\<rparr>
         else if currentStatus = ''pledged'' then
           updateContribution thisYear bdayCoworkerId contributorId
             \<lparr>amount = currentAmount, status = ''paid''\<rparr> s
         else if currentStatus = ''paid'' then
           updateContribution thisYear bdayCoworkerId contributorId
             \<lparr>amount = 0, status = ''unpaid''\<rparr> s
         else s)"

text \<open>
  \<open>handleSave\<close> of \<open>ContributionModal\<close> calls \<open>onSave\<close> with the parsed amount or \<open>onClose\<close>.
  \<open>parseFloat\<close> is a parameter: it gives \<open>None\<close> for a text that is not a number (NaN).
\<close>

datatype modal_result = onSave real | onClose

definition handleSave :: "(string \<Rightarrow> real option) \<Rightarrow> string \<Rightarrow> modal_result" where
  "handleSave parseFloat amt =
     (case parseFloat amt of
        Some parsedAmount \<Rightarrow> if parsedAmount > 0 then onSave parsedAmount else onClose
      | None \<Rightarrow> onClose)"

section \<open>Rendering\<close>

text \<open>
  What the render loop of \<open>App\<close> and \<open>BirthdayCard\<close> read:
  \<open>contributions[contributionId]?.contributors || {}\<close>, and for a cell
  \<open>contributionData[cw.id] || { amount: 0, status: 'unpaid' }\<close>.
\<close>

definition contributionData :: "int \<Rightarrow> string \<Rightarrow> app \<Rightarrow> contributors_map" where
  "contributionData thisYear bdayCoworkerId s =
     (case map_of (contributions s) (contributionId bdayCoworkerId thisYear) of
        Some c \<Rightarrow> (case contributors c of Some cs \<Rightarrow> cs | None \<Rightarrow> [])
      | None \<Rightarrow> [])"

definition cellContribution :: "contributors_map \<Rightarrow> string \<Rightarrow> contribution_entry" where
  "cellContribution cd contributorId =
     (case map_of cd contributorId of
        Some e \<Rightarrow> e
      | None \<Rightarrow> \<lparr>amount = 0, status = ''unpaid''\<rparr>)"

definition cell :: "int \<Rightarrow> string \<Rightarrow> string \<Rightarrow> app \<Rightarrow> contribution_entry" where
  "cell thisYear bdayCoworkerId contributorId s =
     cellContribution (contributionData thisYear bdayCoworkerId s) contributorId"

text \<open>
  The amount a cell shows: \<open>{amount > 0 && <span>{formatCurrency(amount)}</span>}\<close>
  (\<open>None\<close> when the span is not rendered).
\<close>

definition renderedAmount :: "contribution_entry \<Rightarrow> real option" where
  "renderedAmount e = (if amount e > 0 then Some (amount e) else None)"

text \<open>
  The summary of a birthday card. A quotient with divisor zero is not a finite number;
  \<open>quotient\<close> gives \<open>None\<close> for it.
\<close>

definition quotient :: "real \<Rightarrow> real \<Rightarrow> real option" where
  "quotient a b = (if b = 0 then None else Some (a / b))"

record summary =
  paidCount :: nat
  totalAmount :: real
  totalContributors :: nat
  progress :: "real option"

definition summarize :: "int \<Rightarrow> string \<Rightarrow> app \<Rightarrow> summary" where
  "summarize thisYear bdayCoworkerId s =
     (let contributionData = contributionData thisYear bdayCoworkerId s;
          paidContributions = filter (\<lambda>c. status c = ''paid'') (map snd contributionData);
          paidCount = length paidContributions;
          totalAmount = foldl (\<lambda>sum c. sum + amount c) 0 paidContributions;
          totalContributors =
            (if length (coworkers s) > 1 then length (coworkers s) - 1 else 0);
          progress =
            (if totalContributors > 0
             then map_option (\<lambda>q. q * 100) (quotient (real paidCount) (real totalContributors))
             else Some 0)
      in \<lparr>paidCount = paidCount, totalAmount = totalAmount,
          totalContributors = totalContributors, progress = progress\<rparr>)"

section \<open>User interactions on contributions\<close>

text \<open>
  One interaction of the user with the contribution cells and the amount prompt, in the
  calendar year \<open>thisYear\<close>: a click on the cell of a contributor on a birthday card (the
  card passes the contribution it shows), and, while the prompt is rendered, confirming it
  with the text typed or closing it. The card is taken to be rendered in the year of the
  click; the section on the store and the snapshots has the click on a card rendered in
  another year.
\<close>

datatype event =
    CellClick string string
  | PledgeAmount string
  | CancelModal

definition modalRendered :: "app \<Rightarrow> bool" where
  "modalRendered s \<longleftrightarrow> isContributionModalOpen s \<and> contributionTarget s \<noteq> None"

fun interact :: "(string \<Rightarrow> real option) \<Rightarrow> int \<Rightarrow> app \<Rightarrow> event \<Rightarrow> app" where
  "interact parseFloat thisYear s (CellClick bdayCoworkerId contributorId) =
     handleContributionClick thisYear bdayCoworkerId contributorId
       (cell thisYear bdayCoworkerId contributorId s) s"
| "interact parseFloat thisYear s (PledgeAmount amt) =
     (if modalRendered s then
        (case handleSave parseFloat amt of
           onSave parsedAmount \<Rightarrow> handlePledgeContribution thisYear parsedAmount s
         | onClose \<Rightarrow> s\<lparr>isContributionModalOpen := False\<rparr>)
      else s)"
| "interact parseFloat thisYear s CancelModal =
     (if modalRendered s then s\<lparr>isContributionModalOpen := False\<rparr> else s)"

text \<open>A sequence of interactions, one after the other.\<close>

definition run :: "(string \<Rightarrow> real option) \<Rightarrow> int \<Rightarrow> app \<Rightarrow> event list \<Rightarrow> app" where
  "run parseFloat thisYear s es = foldl (interact parseFloat thisYear) s es"

text \<open>The edges of the cycle of the specification: unpaid, pledged, paid, unpaid.\<close>

definition cycle_step :: "string \<Rightarrow> string \<Rightarrow> bool" where
  "cycle_step a b \<longleftrightarrow>
     (a = ''unpaid'' \<and> b = ''pledged'') \<or>
     (a = ''pledged'' \<and> b = ''paid'') \<or>
     (a = ''paid'' \<and> b = ''unpaid'')"

text \<open>
  Two invariants of the interactions. For a pair of a birthday coworker and a contributor:
  the status shown is one of the three, and while the prompt asks for the amount of this
  pair, the pair is unpaid. For the records: every stored entry that is unpaid has the
  amount 0.
\<close>

definition pair_inv :: "int \<Rightarrow> string \<Rightarrow> string \<Rightarrow> app \<Rightarrow> bool" where
  "pair_inv thisYear r c s \<longleftrightarrow>
     status (cell thisYear r c s) \<in> {''unpaid'', ''pledged'', ''paid''} \<and>
     (isContributionModalOpen s \<and> contributionTarget s = Some (r, c)
        \<longrightarrow> status (cell thisYear r c s) = ''unpaid'')"

definition unpaid_zero_map :: "contributors_map \<Rightarrow> bool" where
  "unpaid_zero_map m \<longleftrightarrow> (\<forall>(k, e) \<in> set m. status e = ''unpaid'' \<longrightarrow> amount e = 0)"

definition unpaid_amounts_zero :: "app \<Rightarrow> bool" where
  "unpaid_amounts_zero s \<longleftrightarrow>
     (\<forall>(docId, doc) \<in> set (contributions s).
        case contributors doc of
          None \<Rightarrow> True
        | Some m \<Rightarrow> unpaid_zero_map m)"

section \<open>The store and the snapshots\<close>

text \<open>
  The collections of the store, and the application together with the store. The
  handlers read the snapshots in the state of the component and write to the store; the
  snapshots follow the store when the listeners are called. \<open>in_step\<close> says that the
  snapshot of the contribution records is the collection of the store.
\<close>

record store =
  coworkerDocs :: "coworker list"
  contributionDocs :: contributions_map

record world =
  react :: app
  db :: store

definition in_step :: "world \<Rightarrow> bool" where
  "in_step w \<longleftrightarrow> contributions (react w) = contributionDocs (db w)"

text \<open>
  The call of \<open>setDoc\<close> that \<open>updateContribution\<close> makes, if it makes one: the identifier of
  the document and the data, both computed from the snapshots. The handler reads the
  clock twice, for the identifier of the document (\<open>idYear\<close>) and for the field \<open>year\<close>
  of the data (\<open>docYear\<close>). \<open>setDoc\<close> is the call on the store.
\<close>

definition updateContribution_setDoc ::
    "int \<Rightarrow> int \<Rightarrow> string \<Rightarrow> string \<Rightarrow> contribution_entry \<Rightarrow> app
      \<Rightarrow> (string \<times> contribution) option"
  where
  "updateContribution_setDoc idYear docYear bdayCoworkerId contributorId newContributionData s =
     (case user s of
        None \<Rightarrow> None
      | Some _ \<Rightarrow>
          (let contributionId = contributionId bdayCoworkerId idYear;
               currentContributors =
                 (case map_of (contributions s) contributionId of
                    Some c \<Rightarrow> (case contributors c of Some cs \<Rightarrow> cs | None \<Rightarrow> [])
                  | None \<Rightarrow>
                      foldl (\<lambda>acc cw. AList.update (cid cw) \<lparr>amount = 0, status = ''unpaid''\<rparr> acc)
                        [] (coworkers s));
               updatedContributors =
                 AList.update contributorId newContributionData currentContributors
           in Some (contributionId,
                    \<lparr>birthdayCoworkerId = bdayCoworkerId, year = docYear,
                     contributors = Some updatedContributors\<rparr>)))"

definition setDoc :: "(string \<times> contribution) option \<Rightarrow> store \<Rightarrow> store" where
  "setDoc call st =
     (case call of
        None \<Rightarrow> st
      | Some (docId, data) \<Rightarrow>
          st\<lparr>contributionDocs := setDoc_merge docId data (contributionDocs st)\<rparr>)"

text \<open>
  \<open>handleContributionClick\<close> and \<open>handlePledgeContribution\<close>, each as the call of \<open>setDoc\<close>
  it makes and the change of the state of the component.
\<close>

definition handleContributionClick_setDoc ::
    "int \<Rightarrow> int \<Rightarrow> string \<Rightarrow> string \<Rightarrow> contribution_entry \<Rightarrow> app
      \<Rightarrow> (string \<times> contribution) option"
  where
  "handleContributionClick_setDoc idYear docYear bdayCoworkerId contributorId contribution s =
     (let currentStatus = (if status contribution = [] then ''unpaid'' else status contribution);
          currentAmount = amount contribution
      in if currentStatus = ''unpaid'' then None
         else if currentStatus = ''pledged'' then
           updateContribution_setDoc idYear docYear bdayCoworkerId contributorId
             \<lparr>amount = currentAmount, status = ''paid''\<rparr> s
         else if currentStatus = ''paid'' then
           updateContribution_setDoc idYear docYear bdayCoworkerId contributorId
             \<lparr>amount = 0, status = ''unpaid''\<rparr> s
         else None)"

definition handleContributionClick_react ::
    "string \<Rightarrow> string \<Rightarrow> contribution_entry \<Rightarrow> app \<Rightarrow> app" where
  "handleContributionClick_react bdayCoworkerId contributorId contribution s =
     (let currentStatus = (if status contribution = [] then ''unpaid'' else status contribution)
      in if currentStatus = ''unpaid'' then
           s\<lparr>contributionTarget := Some (bdayCoworkerId, contributorId),
             isContributionModalOpen := True\<rparr>
         else s)"

definition handlePledgeContribution_setDoc ::
    "int \<Rightarrow> int \<Rightarrow> real \<Rightarrow> app \<Rightarrow> (string \<times> contribution) option" where
  "handlePledgeContribution_setDoc idYear docYear amt s =
     (case contributionTarget s of
        Some (bdayCoworkerId, contributorId) \<Rightarrow>
          updateContribution_setDoc idYear docYear bdayCoworkerId contributorId
            \<lparr>amount = amt, status = ''pledged''\<rparr> s
      | None \<Rightarrow> None)"

definition handlePledgeContribution_react :: "app \<Rightarrow> app" where
  "handlePledgeContribution_react s =
     s\<lparr>isContributionModalOpen := False, contributionTarget := None\<rparr>"

text \<open>
  What happens to the application and the store: a click on a cell of a card that was
  rendered in the year \<open>renderYear\<close> (the card computed the identifier of the record it
  shows when it was rendered), handled when the clock reads \<open>idYear\<close> and then \<open>docYear\<close>;
  confirming the prompt, with the two readings of the clock; closing the prompt; and the
  calls of the two listeners, each bringing the snapshot of its collection.
\<close>

datatype action =
    Click int int int string string
  | Confirm int int string
  | Cancel
  | CoworkersSnapshot
  | ContributionsSnapshot

fun act :: "(string \<Rightarrow> real option) \<Rightarrow> world \<Rightarrow> action \<Rightarrow> world" where
  "act parseFloat w (Click renderYear idYear docYear bdayCoworkerId contributorId) =
     (let contribution = cell renderYear bdayCoworkerId contributorId (react w)
      in \<lparr>react =
            handleContributionClick_react bdayCoworkerId contributorId contribution (react w),
          db =
            setDoc
              (handleContributionClick_setDoc idYear docYear bdayCoworkerId contributorId
                 contribution (react w))
              (db w)\<rparr>)"
| "act parseFloat w (Confirm idYear docYear amt) =
     (if modalRendered (react w) then
        (case handleSave parseFloat amt of
           onSave parsedAmount \<Rightarrow>
             \<lparr>react = handlePledgeContribution_react (react w),
              db =
                setDoc (handlePledgeContribution_setDoc idYear docYear parsedAmount (react w))
                  (db w)\<rparr>
         | onClose \<Rightarrow> w\<lparr>react := (react w)\<lparr>isContributionModalOpen := False\<rparr>\<rparr>)
      else w)"
| "act parseFloat w Cancel =
     (if modalRendered (react w)
      then w\<lparr>react := (react w)\<lparr>isContributionModalOpen := False\<rparr>\<rparr>
      else w)"
| "act parseFloat w CoworkersSnapshot =
     w\<lparr>react := (react w)\<lparr>coworkers := coworkerDocs (db w)\<rparr>\<rparr>"
| "act parseFloat w ContributionsSnapshot =
     w\<lparr>react := (react w)\<lparr>contributions := contributionDocs (db w)\<rparr>\<rparr>"

definition perform :: "(string \<Rightarrow> real option) \<Rightarrow> world \<Rightarrow> action list \<Rightarrow> world" where
  "perform parseFloat w acts = foldl (act parseFloat) w acts"

text \<open>
  The state of the component once the snapshot of the contribution records has arrived,
  and the entry that the store holds for a pair in a year (the entry a card rendered in
  that year shows once the snapshot has arrived).
\<close>

definition arrived :: "world \<Rightarrow> app" where
  "arrived w = (react w)\<lparr>contributions := contributionDocs (db w)\<rparr>"

definition storedEntry :: "int \<Rightarrow> string \<Rightarrow> string \<Rightarrow> world \<Rightarrow> contribution_entry" where
  "storedEntry thisYear bdayCoworkerId contributorId w =
     cell thisYear bdayCoworkerId contributorId (arrived w)"

text \<open>
  An action is timely for the year \<open>y\<close> when it is the call of a listener or the closing
  of the prompt, or finds the snapshot of the contribution records in step with the store
  and is handled in the year \<open>y\<close>, on a card rendered in the year \<open>y\<close>. A sequence of
  actions is timely when each of them is, in the state it is performed in.
\<close>

fun timely :: "int \<Rightarrow> world \<Rightarrow> action \<Rightarrow> bool" where
  "timely y w (Click renderYear idYear docYear bdayCoworkerId contributorId) \<longleftrightarrow>
     renderYear = y \<and> idYear = y \<and> docYear = y \<and> in_step w"
| "timely y w (Confirm idYear docYear amt) \<longleftrightarrow> idYear = y \<and> docYear = y \<and> in_step w"
| "timely y w Cancel \<longleftrightarrow> True"
| "timely y w CoworkersSnapshot \<longleftrightarrow> True"
| "timely y w ContributionsSnapshot \<longleftrightarrow> True"

fun all_timely :: "(string \<Rightarrow> real option) \<Rightarrow> int \<Rightarrow> world \<Rightarrow> action list \<Rightarrow> bool" where
  "all_timely parseFloat y w [] \<longleftrightarrow> True"
| "all_timely parseFloat y w (a # acts) \<longleftrightarrow>
     timely y w a \<and> all_timely parseFloat y (act parseFloat w a) acts"

section \<open>Deleting a coworker\<close>

text \<open>
  The writes of a batch. \<open>batch.update(ref, { contributors: m })\<close> replaces the field
  \<open>contributors\<close> of a document that exists; the store commits a batch as a whole, or
  rejects it as a whole when a document to update does not exist.
\<close>

datatype batch_write =
    delete_coworker string
  | update_contributors string contributors_map

definition writable :: "store \<Rightarrow> batch_write \<Rightarrow> bool" where
  "writable st w =
     (case w of
        delete_coworker _ \<Rightarrow> True
      | update_contributors docId _ \<Rightarrow> map_of (contributionDocs st) docId \<noteq> None)"

definition apply_write :: "store \<Rightarrow> batch_write \<Rightarrow> store" where
  "apply_write st w =
     (case w of
        delete_coworker coworkerId \<Rightarrow>
          st\<lparr>coworkerDocs := filter (\<lambda>cw. cid cw \<noteq> coworkerId) (coworkerDocs st)\<rparr>
      | update_contributors docId m \<Rightarrow>
          st\<lparr>contributionDocs :=
               AList.map_entry docId (\<lambda>c. c\<lparr>contributors := Some m\<rparr>) (contributionDocs st)\<rparr>)"

definition commit :: "batch_write list \<Rightarrow> store \<Rightarrow> store option" where
  "commit batch st =
     (if list_all (writable st) batch then Some (foldl apply_write st batch) else None)"

text \<open>
  \<open>handleDeleteCoworker\<close> builds one batch from the snapshot of the contribution records
  and commits it. \<open>contributorUpdate\<close> is the body of the loop over the records: the update
  of one record, when the record has an entry for the coworker. The handler is given by
  the batches it commits, in the order of the calls of \<open>batch.commit()\<close>.
\<close>

definition contributorUpdate :: "string \<Rightarrow> string \<times> contribution \<Rightarrow> batch_write option" where
  "contributorUpdate coworkerId entry =
     (case entry of (docId, contribution) \<Rightarrow>
        (case contributors contribution of
           None \<Rightarrow> None
         | Some m \<Rightarrow>
             if map_of m coworkerId \<noteq> None
             then Some (update_contributors docId (AList.delete coworkerId m))
             else None))"

definition deleteBatch :: "string \<Rightarrow> app \<Rightarrow> batch_write list" where
  "deleteBatch coworkerId s =
     delete_coworker coworkerId #
     List.map_filter (contributorUpdate coworkerId) (contributions s)"

definition handleDeleteCoworker :: "string \<Rightarrow> app \<Rightarrow> batch_write list list" where
  "handleDeleteCoworker coworkerId s =
     (if \<not> isOrganizer s then [] else [deleteBatch coworkerId s])"

text \<open>
  The store after one call of \<open>batch.commit()\<close> (a rejected batch is logged and changes
  nothing), and the states that the store goes through while a sequence of batches is
  committed: the state before, and the state after each commit. These are the states that
  a reader of the store can see; the writes inside a batch are not.
\<close>

definition committed :: "store \<Rightarrow> batch_write list \<Rightarrow> store" where
  "committed st batch = (case commit batch st of Some st' \<Rightarrow> st' | None \<Rightarrow> st)"

fun history :: "store \<Rightarrow> batch_write list list \<Rightarrow> store list" where
  "history st [] = [st]"
| "history st (batch # batches) = st # history (committed st batch) batches"

text \<open>
  The store once \<open>handleDeleteCoworker\<close> has run, and what the deletion of a coworker is
  to make of a contribution record, in the words of the specification: the same record
  with the key of the coworker stripped out of its contributors.
\<close>

definition afterDelete :: "string \<Rightarrow> world \<Rightarrow> store" where
  "afterDelete coworkerId w = last (history (db w) (handleDeleteCoworker coworkerId (react w)))"

definition withoutContributor :: "string \<Rightarrow> contribution \<Rightarrow> contribution" where
  "withoutContributor coworkerId doc =
     doc\<lparr>contributors := map_option (AList.delete coworkerId) (contributors doc)\<rparr>"

section \<open>Example data\<close>

text \<open>
  20 December 2025, 01:00, and four coworkers: one without a birthday, and birthdays on
  2 January, 25 December and 15 June, each stored with the time 08:00.
\<close>

abbreviation (input) ex_now :: Date where
  "ex_now \<equiv> \<lparr>getFullYear = 2025, getMonth = 11, getDate = 20, timeWithinDay = 3600000\<rparr>"

abbreviation (input) ex_coworkers :: "coworker list" where
  "ex_coworkers \<equiv>
    [\<lparr>cid = ''a'', name = ''Ana'', birthday = None\<rparr>,
     \<lparr>cid = ''c'', name = ''Cy'', birthday =
        Some \<lparr>getFullYear = 1990, getMonth = 0, getDate = 2, timeWithinDay = 28800000\<rparr>\<rparr>,
     \<lparr>cid = ''b'', name = ''Bea'', birthday =
        Some \<lparr>getFullYear = 1985, getMonth = 11, getDate = 25, timeWithinDay = 28800000\<rparr>\<rparr>,
     \<lparr>cid = ''e'', name = ''Eli'', birthday =
        Some \<lparr>getFullYear = 1992, getMonth = 5, getDate = 15, timeWithinDay = 28800000\<rparr>\<rparr>]"

abbreviation (input) ex_upcoming :: "upcoming list" where
  "ex_upcoming \<equiv>
    [\<lparr>cid = ''b'', name = ''Bea'', birthday =
        Some \<lparr>getFullYear = 1985, getMonth = 11, getDate = 25, timeWithinDay = 28800000\<rparr>,
      nextBirthday = \<lparr>getFullYear = 2025, getMonth = 11, getDate = 25, timeWithinDay = 28800000\<rparr>\<rparr>,
     \<lparr>cid = ''c'', name = ''Cy'', birthday =
        Some \<lparr>getFullYear = 1990, getMonth = 0, getDate = 2, timeWithinDay = 28800000\<rparr>,
      nextBirthday = \<lparr>getFullYear = 2026, getMonth = 0, getDate = 2, timeWithinDay = 28800000\<rparr>\<rparr>]"

text \<open>A birthday on 19 January, thirty days after 20 December, stored with the time 08:00.\<close>

abbreviation (input) ex_late :: Date where
  "ex_late \<equiv> \<lparr>getFullYear = 1990, getMonth = 0, getDate = 19, timeWithinDay = 28800000\<rparr>"

text \<open>
  Four coworkers and the contribution record of the year 2025 for the birthday of \<open>r\<close>:
  \<open>x\<close> has paid 500 and \<open>y\<close> has pledged 200.
\<close>

abbreviation (input) ex_team :: "coworker list" where
  "ex_team \<equiv>
    [\<lparr>cid = ''r'', name = ''Rey'', birthday =
        Some \<lparr>getFullYear = 1985, getMonth = 11, getDate = 25, timeWithinDay = 28800000\<rparr>\<rparr>,
     \<lparr>cid = ''x'', name = ''Xia'', birthday = None\<rparr>,
     \<lparr>cid = ''y'', name = ''Yul'', birthday = None\<rparr>,
     \<lparr>cid = ''z'', name = ''Zoe'', birthday = None\<rparr>]"

abbreviation (input) ex_app :: app where
  "ex_app \<equiv>
    \<lparr>user = Some ''u1'', isOrganizer = True, coworkers = ex_team,
     contributions =
       [(''r_2025'',
         \<lparr>birthdayCoworkerId = ''r'', year = 2025,
          contributors = Some [(''x'', \<lparr>amount = 500, status = ''paid''\<rparr>),
                               (''y'', \<lparr>amount = 200, status = ''pledged''\<rparr>)]\<rparr>)],
     isContributionModalOpen = False, contributionTarget = None\<rparr>"

text \<open>The same coworkers before any contribution was recorded.\<close>

abbreviation (input) ex_fresh :: app where
  "ex_fresh \<equiv>
    \<lparr>user = Some ''u1'', isOrganizer = True, coworkers = ex_team, contributions = [],
     isContributionModalOpen = False, contributionTarget = None\<rparr>"

text \<open>A stand-in for \<open>parseFloat\<close> that reads the texts \<open>100\<close> and \<open>0\<close>.\<close>

abbreviation (input) ex_parseFloat :: "string \<Rightarrow> real option" where
  "ex_parseFloat \<equiv> (\<lambda>t. if t = ''100'' then Some 100 else if t = ''0'' then Some 0 else None)"

text \<open>A record in which the entry of \<open>x\<close> is unpaid with the amount 50 left in it.\<close>

abbreviation (input) ex_stale :: app where
  "ex_stale \<equiv>
    \<lparr>user = Some ''u1'', isOrganizer = True, coworkers = ex_team,
     contributions =
       [(''r_2025'',
         \<lparr>birthdayCoworkerId = ''r'', year = 2025,
          contributors = Some [(''x'', \<lparr>amount = 50, status = ''unpaid''\<rparr>)]\<rparr>)],
     isContributionModalOpen = False, contributionTarget = None\<rparr>"

text \<open>
  Three contribution records: \<open>x\<close> has an entry in the records for the birthdays of \<open>r\<close>
  and \<open>y\<close>, and none in the record for \<open>z\<close>.
\<close>

abbreviation (input) ex_records :: app where
  "ex_records \<equiv>
    \<lparr>user = Some ''u1'', isOrganizer = True, coworkers = ex_team,
     contributions =
       [(''r_2025'',
         \<lparr>birthdayCoworkerId = ''r'', year = 2025,
          contributors = Some [(''x'', \<lparr>amount = 500, status = ''paid''\<rparr>),
                               (''y'', \<lparr>amount = 200, status = ''pledged''\<rparr>)]\<rparr>),
        (''y_2025'',
         \<lparr>birthdayCoworkerId = ''y'', year = 2025,
          contributors = Some [(''x'', \<lparr>amount = 100, status = ''pledged''\<rparr>)]\<rparr>),
        (''z_2025'',
         \<lparr>birthdayCoworkerId = ''z'', year = 2025,
          contributors = Some [(''y'', \<lparr>amount = 0, status = ''unpaid''\<rparr>)]\<rparr>)],
     isContributionModalOpen = False, contributionTarget = None\<rparr>"

text \<open>
  A zone. In central Europe the clock went from 02:00 to 03:00 on 29 March 2026: before,
  local time is one hour ahead of UTC, after, two hours (the zone is given around that
  transition only). A birthday entered as 29 March 1990 is stored as midnight UTC of that
  day, 02:00 of central European summer time, and one entered as 9 April 1990 likewise;
  10 March 2026, 09:00, is a day before the transition, and 9 April 2026 is the thirtieth
  day after it.
\<close>

abbreviation (input) ex_europe :: zone where
  "ex_europe \<equiv>
    \<lparr>settle = (\<lambda>d. if getFullYear d = 2026 \<and> getMonth d = 2 \<and> getDate d = 29
                        \<and> 7200000 \<le> timeWithinDay d \<and> timeWithinDay d < 10800000
                     then d\<lparr>timeWithinDay := timeWithinDay d + 3600000\<rparr>
                     else d),
     utc = (\<lambda>t. if t < 20541 * 86400000 + 10800000 then t - 3600000 else t - 7200000)\<rparr>"

abbreviation (input) ex_spring :: Date where
  "ex_spring \<equiv> \<lparr>getFullYear = 1990, getMonth = 2, getDate = 29, timeWithinDay = 7200000\<rparr>"

abbreviation (input) ex_april :: Date where
  "ex_april \<equiv> \<lparr>getFullYear = 1990, getMonth = 3, getDate = 9, timeWithinDay = 7200000\<rparr>"

abbreviation (input) ex_march :: Date where
  "ex_march \<equiv> \<lparr>getFullYear = 2026, getMonth = 2, getDate = 10, timeWithinDay = 32400000\<rparr>"


text \<open>
  The store with the record of \<open>ex_app\<close>, and three states of the application and the
  store: \<open>ex_world\<close>, in which the snapshots are those of the store; \<open>ex_behind\<close>, in which
  the snapshot of the contribution records has not arrived yet; and \<open>ex_new\<close>, before any
  contribution was recorded.
\<close>

abbreviation (input) ex_store :: store where
  "ex_store \<equiv> \<lparr>coworkerDocs = ex_team, contributionDocs = contributions ex_app\<rparr>"

abbreviation (input) ex_world :: world where
  "ex_world \<equiv> \<lparr>react = ex_app, db = ex_store\<rparr>"

abbreviation (input) ex_behind :: world where
  "ex_behind \<equiv> \<lparr>react = ex_fresh, db = ex_store\<rparr>"

abbreviation (input) ex_new :: world where
  "ex_new \<equiv> \<lparr>react = ex_fresh, db = \<lparr>coworkerDocs = ex_team, contributionDocs = []\<rparr>\<rparr>"

text \<open>The store with the three records of \<open>ex_records\<close>, and the snapshots in step with it.\<close>

abbreviation (input) ex_records_store :: store where
  "ex_records_store \<equiv> \<lparr>coworkerDocs = ex_team, contributionDocs = contributions ex_records\<rparr>"

abbreviation (input) ex_records_world :: world where
  "ex_records_world \<equiv> \<lparr>react = ex_records, db = ex_records_store\<rparr>"
section \<open>Day arithmetic\<close>

lemma div_succ_int:
  fixes a k :: int
  assumes "0 < k"
  shows "(a + 1) div k = a div k + (if (a + 1) mod k = 0 then 1 else 0)"
proof -
  define q where "q = a div k"
  define r where "r = a mod k"
  have a: "a = k * q + r" by (simp add: q_def r_def)
  have r: "0 \<le> r" "r < k" using assms by (simp_all add: r_def)
  show ?thesis
  proof (cases "r + 1 = k")
    case True
    then have "a + 1 = k * (q + 1)" using a by (simp add: algebra_simps)
    then show ?thesis using assms by (simp add: q_def)
  next
    case False
    with r have r1: "0 \<le> r + 1" "r + 1 < k" by simp_all
    have e: "a + 1 = (r + 1) + q * k" using a by (simp add: algebra_simps)
    have "(a + 1) div k = q" unfolding e using r1 assms by (simp add: div_pos_pos_trivial)
    moreover have "(a + 1) mod k = r + 1" unfolding e using r1 by (simp add: mod_pos_pos_trivial)
    ultimately show ?thesis using r by (simp add: q_def)
  qed
qed

lemma shift_mod: "k dvd c \<Longrightarrow> (y - c) mod k = 0 \<longleftrightarrow> y mod k = 0" for y c k :: int
  by (simp add: mod_eq_0_iff_dvd dvd_diff_left_iff)

text \<open>A year has 365 or 366 days: the first day of the next year is that many days later.\<close>

lemma DayFromYear_Suc: "DayFromYear (y + 1) = DayFromYear y + DaysInYear y"
proof -
  have d4: "(y - 1968) div 4 = (y - 1969) div 4 + (if y mod 4 = 0 then 1 else 0)"
    using div_succ_int [of 4 "y - 1969"] shift_mod [of 4 1968 y] by simp
  have d100: "(y - 1900) div 100 = (y - 1901) div 100 + (if y mod 100 = 0 then 1 else 0)"
    using div_succ_int [of 100 "y - 1901"] shift_mod [of 100 1900 y] by simp
  have d400: "(y - 1600) div 400 = (y - 1601) div 400 + (if y mod 400 = 0 then 1 else 0)"
    using div_succ_int [of 400 "y - 1601"] shift_mod [of 400 1600 y] by simp
  have m1: "y mod 100 = 0 \<Longrightarrow> y mod 4 = 0"
    by (simp add: mod_eq_0_iff_dvd) (rule dvd_trans [of 4 100 y], simp_all)
  have m2: "y mod 400 = 0 \<Longrightarrow> y mod 100 = 0"
    by (simp add: mod_eq_0_iff_dvd) (rule dvd_trans [of 100 400 y], simp_all)
  have "DayFromYear (y + 1) =
      365 * (y - 1969) + (y - 1968) div 4 - (y - 1900) div 100 + (y - 1600) div 400"
    by (simp add: DayFromYear_def)
  also have "\<dots> = DayFromYear y + DaysInYear y"
    unfolding d4 d100 d400 using m1 m2
    by (auto simp add: DayFromYear_def DaysInYear_def InLeapYear_def)
  finally show ?thesis .
qed

lemma month_cases:
  assumes "0 \<le> m" "m \<le> 11"
  obtains "m = 0" | "m = 1" | "m = 2" | "m = 3" | "m = 4" | "m = 5"
        | "m = 6" | "m = 7" | "m = 8" | "m = 9" | "m = 10" | "m = (11::int)"
proof -
  from assms have "m \<in> {0..11}" by simp
  also have "{0..11::int} = set [0..11]" by simp
  finally have "m \<in> set [0..11]" .
  then have "m \<in> {0,1,2,3,4,5,6,7,8,9,10,11}" by (simp add: upto.simps)
  then show thesis using that by blast
qed

lemma MakeDay_in_range:
  "0 \<le> m \<Longrightarrow> m \<le> 11 \<Longrightarrow> MakeDay y m dt = DayFromYear y + DayWithinYearOfMonth y m + dt - 1"
  by (simp add: MakeDay_def Let_def zdiv_eq_0_iff)

lemma month_end_in_year:
  assumes "0 \<le> m" "m \<le> 11"
  shows "DayWithinYearOfMonth y m + DaysInMonth y m \<le> DaysInYear y"
  using assms(1,2)
  by (rule month_cases) (simp_all add: DayWithinYearOfMonth_def DaysInMonth_def DaysInYear_def)

lemma month_start_nonneg: "0 \<le> DayWithinYearOfMonth y m"
  by (simp add: DayWithinYearOfMonth_def Let_def)

lemma valid_Date_lower:
  assumes "valid_Date d"
  shows "DayFromYear (getFullYear d) * msPerDay \<le> valueOf d"
proof -
  from assms have m: "0 \<le> getMonth d" "getMonth d \<le> 11" and dt: "1 \<le> getDate d"
    and t: "0 \<le> timeWithinDay d"
    by (simp_all add: valid_Date_def)
  have "DayFromYear (getFullYear d) \<le> MakeDay (getFullYear d) (getMonth d) (getDate d)"
    using month_start_nonneg [of "getFullYear d" "getMonth d"] dt
    by (simp add: MakeDay_in_range [OF m])
  then have "DayFromYear (getFullYear d) * msPerDay
      \<le> MakeDay (getFullYear d) (getMonth d) (getDate d) * msPerDay"
    by (simp add: msPerDay_def)
  with t show ?thesis by (simp add: valueOf_def Day_def MakeDate_def)
qed

lemma valid_Date_upper:
  assumes "valid_Date d"
  shows "valueOf d < DayFromYear (getFullYear d + 1) * msPerDay"
proof -
  from assms have m: "0 \<le> getMonth d" "getMonth d \<le> 11"
    and dt: "getDate d \<le> DaysInMonth (getFullYear d) (getMonth d)"
    and t: "timeWithinDay d < msPerDay"
    by (simp_all add: valid_Date_def)
  have "MakeDay (getFullYear d) (getMonth d) (getDate d) + 1 \<le> DayFromYear (getFullYear d + 1)"
    using month_end_in_year [OF m, of "getFullYear d"] dt
    by (simp add: MakeDay_in_range [OF m] DayFromYear_Suc)
  then have "(MakeDay (getFullYear d) (getMonth d) (getDate d) + 1) * msPerDay
      \<le> DayFromYear (getFullYear d + 1) * msPerDay"
    by (simp add: msPerDay_def)
  with t show ?thesis by (simp add: valueOf_def Day_def MakeDate_def algebra_simps)
qed

lemma setFullYear_fields:
  assumes "valid_Date d"
  shows "valid_Date (setFullYear y d)"
    and "getFullYear (setFullYear y d) = y"
    and "timeWithinDay (setFullYear y d) = timeWithinDay d"
proof -
  from assms have m: "0 \<le> getMonth d" "getMonth d \<le> 11"
    and dt: "1 \<le> getDate d" "getDate d \<le> DaysInMonth (getFullYear d) (getMonth d)"
    and t: "0 \<le> timeWithinDay d" "timeWithinDay d < msPerDay"
    by (simp_all add: valid_Date_def)
  show "getFullYear (setFullYear y d) = y"
    and "timeWithinDay (setFullYear y d) = timeWithinDay d"
    by (simp_all add: setFullYear_def)
  show "valid_Date (setFullYear y d)"
  proof (cases "getDate d \<le> DaysInMonth y (getMonth d)")
    case True
    with m dt t show ?thesis by (simp add: setFullYear_def valid_Date_def)
  next
    case False
    with dt(2) have feb: "getMonth d = 1"
      by (auto simp add: DaysInMonth_def split: if_splits)
    with False dt(2) have "getDate d = 29" "DaysInMonth y 1 = 28"
      by (auto simp add: DaysInMonth_def split: if_splits)
    with False feb t show ?thesis
      by (simp add: setFullYear_def valid_Date_def DaysInMonth_def)
  qed
qed

text \<open>The fields that \<open>setFullYear\<close> keeps denote the time value of the language standard.\<close>

lemma valueOf_setFullYear:
  assumes "valid_Date d"
  shows "valueOf (setFullYear y d) = MakeDate (MakeDay y (getMonth d) (getDate d)) (timeWithinDay d)"
proof (cases "getDate d \<le> DaysInMonth y (getMonth d)")
  case True
  then show ?thesis by (simp add: setFullYear_def valueOf_def Day_def)
next
  case False
  from assms have dt: "getDate d \<le> DaysInMonth (getFullYear d) (getMonth d)"
    by (simp add: valid_Date_def)
  with False have feb: "getMonth d = 1"
    by (auto simp add: DaysInMonth_def split: if_splits)
  with False dt have "getDate d = 29" "DaysInMonth y 1 = 28" "\<not> InLeapYear y"
    by (auto simp add: DaysInMonth_def split: if_splits)
  with False feb show ?thesis
    by (simp add: setFullYear_def valueOf_def Day_def MakeDay_def DayWithinYearOfMonth_def add.commute)
qed

lemma setHours0_fields:
  assumes "valid_Date now"
  shows "valid_Date (setHours0 now)"
  using assms by (simp add: valid_Date_def setHours0_def msPerDay_def)

lemma next_year_not_past:
  assumes "valid_Date today" "valid_Date d" "getFullYear d = getFullYear today + 1"
  shows "valueOf today < valueOf d"
  using valid_Date_upper [OF assms(1)] valid_Date_lower [OF assms(2)] assms(3) by simp

lemma resolveNextBirthday_valid:
  assumes "valid_Date stored"
  shows "valid_Date (resolveNextBirthday today stored)"
  using assms by (simp add: resolveNextBirthday_def Let_def setFullYear_fields(1))

lemma resolveNextBirthday_not_past:
  assumes "valid_Date today" "valid_Date stored"
  shows "valueOf today \<le> valueOf (resolveNextBirthday today stored)"
proof -
  let ?c = "setFullYear (getFullYear today) stored"
  have c: "valid_Date ?c" using assms(2) by (rule setFullYear_fields(1))
  show ?thesis
  proof (cases "valueOf ?c < valueOf today")
    case True
    have "valueOf today < valueOf (setFullYear (getFullYear today + 1) ?c)"
      using assms(1) setFullYear_fields(1) [OF c] setFullYear_fields(2) [OF c]
      by (rule next_year_not_past)
    with True show ?thesis by (simp add: resolveNextBirthday_def Let_def)
  next
    case False
    then show ?thesis by (simp add: resolveNextBirthday_def Let_def)
  qed
qed

lemma resolveNextBirthday_year:
  assumes "valid_Date stored"
  shows "getFullYear (resolveNextBirthday today stored) =
    (if valueOf (setFullYear (getFullYear today) stored) < valueOf today
     then getFullYear today + 1 else getFullYear today)"
  using setFullYear_fields(2) [OF assms]
    setFullYear_fields(2) [OF setFullYear_fields(1) [OF assms]]
  by (simp add: resolveNextBirthday_def Let_def)

lemma resolveNextBirthday_same_day:
  assumes "valid_Date now" "valid_Date stored"
    and "getMonth stored = getMonth now" "getDate stored = getDate now"
  shows "resolveNextBirthday (setHours0 now) stored = stored\<lparr>getFullYear := getFullYear now\<rparr>"
proof -
  from assms have le: "getDate stored \<le> DaysInMonth (getFullYear now) (getMonth stored)"
    by (simp add: valid_Date_def)
  then have c: "setFullYear (getFullYear (setHours0 now)) stored
      = stored\<lparr>getFullYear := getFullYear now\<rparr>"
    by (simp add: setFullYear_def setHours0_def)
  from assms(2) have "0 \<le> timeWithinDay stored" by (simp add: valid_Date_def)
  then have "\<not> valueOf (stored\<lparr>getFullYear := getFullYear now\<rparr>) < valueOf (setHours0 now)"
    using assms(3,4) by (simp add: valueOf_def Day_def setHours0_def MakeDate_def)
  with c show ?thesis by (simp add: resolveNextBirthday_def Let_def)
qed

section \<open>The next birthday\<close>

text \<open>
  Claim C3. For every stored birthday and every instant \<open>now\<close>, with \<open>today\<close> the midnight
  that starts the day of \<open>now\<close>: the resolved next birthday is not before \<open>today\<close>; it is
  the candidate (the stored date moved to the year of \<open>today\<close>), moved one year further
  exactly when the candidate is strictly before \<open>today\<close>, so its year is the next year in
  that case and the year of \<open>today\<close> otherwise; and a birthday whose month and day are
  those of \<open>now\<close> resolves to the day of \<open>now\<close>.
\<close>

theorem C3_next_birthday_not_past:
  assumes "valid_Date now" and "valid_Date stored"
  shows "valueOf (setHours0 now) \<le> valueOf (resolveNextBirthday (setHours0 now) stored)
    \<and> resolveNextBirthday (setHours0 now) stored =
        (if valueOf (setFullYear (getFullYear now) stored) < valueOf (setHours0 now)
         then setFullYear (getFullYear now + 1) (setFullYear (getFullYear now) stored)
         else setFullYear (getFullYear now) stored)
    \<and> getFullYear (resolveNextBirthday (setHours0 now) stored) =
        (if valueOf (setFullYear (getFullYear now) stored) < valueOf (setHours0 now)
         then getFullYear now + 1 else getFullYear now)
    \<and> (getMonth stored = getMonth now \<and> getDate stored = getDate now \<longrightarrow>
         resolveNextBirthday (setHours0 now) stored = stored\<lparr>getFullYear := getFullYear now\<rparr>)"
proof -
  have y: "getFullYear (setHours0 now) = getFullYear now" by (simp add: setHours0_def)
  have "valueOf (setHours0 now) \<le> valueOf (resolveNextBirthday (setHours0 now) stored)"
    using setHours0_fields [OF assms(1)] assms(2) by (rule resolveNextBirthday_not_past)
  moreover have "resolveNextBirthday (setHours0 now) stored =
        (if valueOf (setFullYear (getFullYear now) stored) < valueOf (setHours0 now)
         then setFullYear (getFullYear now + 1) (setFullYear (getFullYear now) stored)
         else setFullYear (getFullYear now) stored)"
    by (simp add: resolveNextBirthday_def Let_def y)
  moreover have "getFullYear (resolveNextBirthday (setHours0 now) stored) =
        (if valueOf (setFullYear (getFullYear now) stored) < valueOf (setHours0 now)
         then getFullYear now + 1 else getFullYear now)"
    using resolveNextBirthday_year [OF assms(2), of "setHours0 now"] by (simp add: y)
  moreover have "getMonth stored = getMonth now \<and> getDate stored = getDate now \<longrightarrow>
         resolveNextBirthday (setHours0 now) stored = stored\<lparr>getFullYear := getFullYear now\<rparr>"
    using resolveNextBirthday_same_day [OF assms] by simp
  ultimately show ?thesis by blast
qed

text \<open>
  On 20 December 2025 at 01:00, a birthday stored as 2 January 1990, 08:00, resolves to
  2 January 2026, 08:00: the candidate 2 January 2025 is before today.
\<close>

theorem C3_next_birthday_not_past_witness:
  "valid_Date \<lparr>getFullYear = 2025, getMonth = 11, getDate = 20, timeWithinDay = 3600000\<rparr>
   \<and> valid_Date \<lparr>getFullYear = 1990, getMonth = 0, getDate = 2, timeWithinDay = 28800000\<rparr>
   \<and> resolveNextBirthday
        (setHours0 \<lparr>getFullYear = 2025, getMonth = 11, getDate = 20, timeWithinDay = 3600000\<rparr>)
        \<lparr>getFullYear = 1990, getMonth = 0, getDate = 2, timeWithinDay = 28800000\<rparr>
      = \<lparr>getFullYear = 2026, getMonth = 0, getDate = 2, timeWithinDay = 28800000\<rparr>
   \<and> valueOf (setHours0 \<lparr>getFullYear = 2025, getMonth = 11, getDate = 20, timeWithinDay = 3600000\<rparr>)
      \<le> valueOf \<lparr>getFullYear = 2026, getMonth = 0, getDate = 2, timeWithinDay = 28800000\<rparr>"
proof -
  let ?now = "\<lparr>getFullYear = 2025, getMonth = 11, getDate = 20, timeWithinDay = 3600000\<rparr>"
  let ?stored = "\<lparr>getFullYear = 1990, getMonth = 0, getDate = 2, timeWithinDay = 28800000\<rparr>"
  have n: "valid_Date ?now" by (simp add: valid_Date_def DaysInMonth_def msPerDay_def)
  have s: "valid_Date ?stored" by (simp add: valid_Date_def DaysInMonth_def msPerDay_def)
  have r: "resolveNextBirthday (setHours0 ?now) ?stored
      = \<lparr>getFullYear = 2026, getMonth = 0, getDate = 2, timeWithinDay = 28800000\<rparr>"
    by (simp add: resolveNextBirthday_def Let_def setFullYear_def setHours0_def valueOf_def Day_def
        MakeDate_def MakeDay_def DayFromYear_def DayWithinYearOfMonth_def DaysInMonth_def
        InLeapYear_def msPerDay_def)
  have v: "valueOf (setHours0 ?now)
      \<le> valueOf \<lparr>getFullYear = 2026, getMonth = 0, getDate = 2, timeWithinDay = 28800000\<rparr>"
    using C3_next_birthday_not_past [OF n s, THEN conjunct1] unfolding r .
  from n s r v show ?thesis by blast
qed

section \<open>The upcoming birthdays\<close>

lemma setDate_plus_30:
  "setDate (getDate today + 30) today = valueOf today + 30 * msPerDay"
  by (simp add: setDate_def valueOf_def Day_def MakeDate_def MakeDay_def Let_def algebra_simps)

lemma window_coworkers:
  "map coworker.truncate
     (filter (inWindow today (valueOf today + 30 * msPerDay))
        (List.map_filter (withNextBirthday today) cws))
   = filter (inNext30Days today) cws"
proof (induction cws)
  case Nil
  show ?case by (simp add: map_filter_simps)
next
  case (Cons cw cws)
  show ?case
  proof (cases "birthday cw")
    case None
    then show ?thesis using Cons
      by (simp add: map_filter_simps withNextBirthday_def inNext30Days_def)
  next
    case (Some b)
    then show ?thesis using Cons
      by (simp add: map_filter_simps withNextBirthday_def inNext30Days_def inWindow_def
          coworker.truncate_def)
  qed
qed

lemma set_map_filter_Some:
  "set (List.map_filter f xs) = {y. \<exists>x \<in> set xs. f x = Some y}"
  by (induction xs) (auto simp add: map_filter_simps split: option.splits)

lemma upcoming_nextBirthday:
  assumes "u \<in> set (upcomingBirthdays cws now)"
  shows "\<exists>b. birthday u = Some b \<and> nextBirthday u = resolveNextBirthday (setHours0 now) b"
proof -
  from assms obtain cw where "withNextBirthday (setHours0 now) cw = Some u"
    by (auto simp add: upcomingBirthdays_def Let_def set_map_filter_Some)
  then show ?thesis
    by (auto simp add: withNextBirthday_def split: option.splits)
qed

lemma upcoming_sorted:
  "sorted (map (\<lambda>u. valueOf (nextBirthday u)) (upcomingBirthdays cws now))"
  by (simp add: upcomingBirthdays_def Let_def)

lemma upcoming_mset:
  "mset (map coworker.truncate (upcomingBirthdays cws now))
   = mset (filter (inNext30Days (setHours0 now)) cws)"
proof -
  let ?window = "filter (inWindow (setHours0 now) (valueOf (setHours0 now) + 30 * msPerDay))
        (List.map_filter (withNextBirthday (setHours0 now)) cws)"
  have "mset (map coworker.truncate (upcomingBirthdays cws now))
      = image_mset coworker.truncate (mset ?window)"
    by (simp add: upcomingBirthdays_def Let_def setDate_plus_30)
  also have "\<dots> = mset (map coworker.truncate ?window)"
    by simp
  finally show ?thesis unfolding window_coworkers .
qed

lemma upcoming_member:
  "u \<in> set (upcomingBirthdays cws now) \<longleftrightarrow>
     (\<exists>cw \<in> set cws. withNextBirthday (setHours0 now) cw = Some u)
     \<and> inWindow (setHours0 now) (valueOf (setHours0 now) + 30 * msPerDay) u"
  by (auto simp add: upcomingBirthdays_def Let_def setDate_plus_30 set_map_filter_Some)

lemma time_resolveNextBirthday:
  assumes "valid_Date stored"
  shows "timeWithinDay (resolveNextBirthday today stored) = timeWithinDay stored"
  using setFullYear_fields(3) [OF assms]
    setFullYear_fields(3) [OF setFullYear_fields(1) [OF assms]]
  by (simp add: resolveNextBirthday_def Let_def)

lemma nextBirthday_map:
  assumes "\<forall>u \<in> set xs. \<exists>b. birthday u = Some b \<and> nextBirthday u = f b"
  shows "map nextBirthday xs = map (\<lambda>u. f (the (birthday u))) xs"
  using assms by (induction xs) auto

lemmas date_eval =
  resolveNextBirthday_def Let_def setFullYear_def setHours0_def setDate_def valueOf_def Day_def
  MakeDate_def MakeDay_def DayFromYear_def DayWithinYearOfMonth_def DaysInMonth_def
  InLeapYear_def msPerDay_def

lemma ex_upcomingBirthdays: "upcomingBirthdays ex_coworkers ex_now = ex_upcoming"
proof -
  have t: "valueOf (setHours0 ex_now) = 20442 * 86400000"
    by (simp add: date_eval)
  have n: "setDate (getDate (setHours0 ex_now) + 30) (setHours0 ex_now) = 20472 * 86400000"
    by (simp add: date_eval)
  have r_c: "resolveNextBirthday (setHours0 ex_now)
       \<lparr>getFullYear = 1990, getMonth = 0, getDate = 2, timeWithinDay = 28800000\<rparr>
     = \<lparr>getFullYear = 2026, getMonth = 0, getDate = 2, timeWithinDay = 28800000\<rparr>"
    by (simp add: date_eval)
  have r_b: "resolveNextBirthday (setHours0 ex_now)
       \<lparr>getFullYear = 1985, getMonth = 11, getDate = 25, timeWithinDay = 28800000\<rparr>
     = \<lparr>getFullYear = 2025, getMonth = 11, getDate = 25, timeWithinDay = 28800000\<rparr>"
    by (simp add: date_eval)
  have r_e: "resolveNextBirthday (setHours0 ex_now)
       \<lparr>getFullYear = 1992, getMonth = 5, getDate = 15, timeWithinDay = 28800000\<rparr>
     = \<lparr>getFullYear = 2026, getMonth = 5, getDate = 15, timeWithinDay = 28800000\<rparr>"
    by (simp add: date_eval)
  have m: "List.map_filter (withNextBirthday (setHours0 ex_now)) ex_coworkers =
    [\<lparr>cid = ''c'', name = ''Cy'', birthday =
        Some \<lparr>getFullYear = 1990, getMonth = 0, getDate = 2, timeWithinDay = 28800000\<rparr>,
      nextBirthday = \<lparr>getFullYear = 2026, getMonth = 0, getDate = 2, timeWithinDay = 28800000\<rparr>\<rparr>,
     \<lparr>cid = ''b'', name = ''Bea'', birthday =
        Some \<lparr>getFullYear = 1985, getMonth = 11, getDate = 25, timeWithinDay = 28800000\<rparr>,
      nextBirthday = \<lparr>getFullYear = 2025, getMonth = 11, getDate = 25, timeWithinDay = 28800000\<rparr>\<rparr>,
     \<lparr>cid = ''e'', name = ''Eli'', birthday =
        Some \<lparr>getFullYear = 1992, getMonth = 5, getDate = 15, timeWithinDay = 28800000\<rparr>,
      nextBirthday = \<lparr>getFullYear = 2026, getMonth = 5, getDate = 15, timeWithinDay = 28800000\<rparr>\<rparr>]"
    by (simp add: map_filter_simps withNextBirthday_def r_c r_b r_e)
  have vc: "valueOf \<lparr>getFullYear = 2026, getMonth = 0, getDate = 2, timeWithinDay = 28800000\<rparr>
      = 20455 * 86400000 + 28800000"
    by (simp add: date_eval)
  have vb: "valueOf \<lparr>getFullYear = 2025, getMonth = 11, getDate = 25, timeWithinDay = 28800000\<rparr>
      = 20447 * 86400000 + 28800000"
    by (simp add: date_eval)
  have ve: "valueOf \<lparr>getFullYear = 2026, getMonth = 5, getDate = 15, timeWithinDay = 28800000\<rparr>
      = 20619 * 86400000 + 28800000"
    by (simp add: date_eval)
  show ?thesis
    unfolding upcomingBirthdays_def Let_def n m
    by (simp add: inWindow_def t vc vb ve)
qed

text \<open>
  Claim C4. The upcoming birthdays are exactly the coworkers with a stored birthday whose
  resolved next birthday falls within \<open>[today, today + 30 days]\<close>, both ends included
  (each as often as the coworker list has it), each with its resolved next birthday, in
  ascending order of the resolved date.
\<close>

theorem C4_upcoming_window:
  "mset (map coworker.truncate (upcomingBirthdays cws now))
     = mset (filter (inNext30Days (setHours0 now)) cws)
   \<and> (\<forall>u \<in> set (upcomingBirthdays cws now).
         \<exists>b. birthday u = Some b \<and> nextBirthday u = resolveNextBirthday (setHours0 now) b)
   \<and> sorted (map (\<lambda>u. valueOf (nextBirthday u)) (upcomingBirthdays cws now))"
  using upcoming_mset [of cws now] upcoming_nextBirthday [of _ cws now]
    upcoming_sorted [of cws now]
  by blast

text \<open>
  On 20 December 2025 the upcoming birthdays are 25 December, then 2 January of the next
  year; 15 June and the coworker without a birthday are left out.
\<close>

theorem C4_upcoming_window_witness:
  "upcomingBirthdays ex_coworkers ex_now = ex_upcoming
   \<and> mset (map coworker.truncate ex_upcoming)
       = mset (filter (inNext30Days (setHours0 ex_now)) ex_coworkers)
   \<and> map nextBirthday ex_upcoming
       = map (\<lambda>u. resolveNextBirthday (setHours0 ex_now) (the (birthday u))) ex_upcoming
   \<and> sorted (map (\<lambda>u. valueOf (nextBirthday u)) ex_upcoming)"
proof -
  have c: "mset (map coworker.truncate ex_upcoming)
       = mset (filter (inNext30Days (setHours0 ex_now)) ex_coworkers)
   \<and> (\<forall>u \<in> set ex_upcoming.
         \<exists>b. birthday u = Some b \<and> nextBirthday u = resolveNextBirthday (setHours0 ex_now) b)
   \<and> sorted (map (\<lambda>u. valueOf (nextBirthday u)) ex_upcoming)"
    using C4_upcoming_window [of ex_coworkers ex_now] unfolding ex_upcomingBirthdays .
  from c have m: "mset (map coworker.truncate ex_upcoming)
       = mset (filter (inNext30Days (setHours0 ex_now)) ex_coworkers)"
    by (rule conjunct1)
  from c have "\<forall>u \<in> set ex_upcoming.
         \<exists>b. birthday u = Some b \<and> nextBirthday u = resolveNextBirthday (setHours0 ex_now) b"
    by (rule conjunct2 [THEN conjunct1])
  then have n: "map nextBirthday ex_upcoming
       = map (\<lambda>u. resolveNextBirthday (setHours0 ex_now) (the (birthday u))) ex_upcoming"
    by (rule nextBirthday_map)
  from c have o: "sorted (map (\<lambda>u. valueOf (nextBirthday u)) ex_upcoming)"
    by (rule conjunct2 [THEN conjunct2])
  from ex_upcomingBirthdays m n o show ?thesis by (intro conjI)
qed

section \<open>The time of day of the next birthday\<close>

lemma resolveNextBirthday_in_existing:
  assumes order: "\<And>d d'. valid_Date d \<Longrightarrow> valid_Date d' \<Longrightarrow> keeps z d \<Longrightarrow> keeps z d'
      \<Longrightarrow> (getTime z d < getTime z d') = (valueOf d < valueOf d')"
    and valid: "valid_Date stored" "valid_Date now"
    and today: "keeps z (setHours0 now)"
    and this_year: "keeps z (setFullYear (getFullYear now) stored)"
    and resolved: "keeps z (resolveNextBirthday (setHours0 now) stored)"
  shows "resolveNextBirthday_in z (setHours0_in z now) stored
    = resolveNextBirthday (setHours0 now) stored"
proof -
  have t: "setHours0_in z now = setHours0 now"
    using today by (simp add: setHours0_in_def keeps_def)
  have y: "getFullYear (setHours0 now) = getFullYear now" by (simp add: setHours0_def)
  let ?b = "setFullYear (getFullYear now) stored"
  have b: "setFullYear_in z (getFullYear now) stored = ?b"
    using this_year by (simp add: setFullYear_in_def keeps_def)
  have cmp: "getTime z ?b < getTime z (setHours0 now) \<longleftrightarrow> valueOf ?b < valueOf (setHours0 now)"
    using setFullYear_fields(1) [OF valid(1)] setHours0_fields [OF valid(2)] this_year today
    by (rule order)
  show ?thesis
  proof (cases "valueOf ?b < valueOf (setHours0 now)")
    case True
    then have r: "resolveNextBirthday (setHours0 now) stored
        = setFullYear (getFullYear now + 1) ?b"
      by (simp add: resolveNextBirthday_def Let_def y)
    with resolved have "setFullYear_in z (getFullYear now + 1) ?b
        = setFullYear (getFullYear now + 1) ?b"
      by (simp add: setFullYear_in_def keeps_def)
    with True r show ?thesis
      by (simp add: resolveNextBirthday_in_def Let_def t y b cmp)
  next
    case False
    then show ?thesis
      by (simp add: resolveNextBirthday_in_def resolveNextBirthday_def Let_def t y b cmp)
  qed
qed

lemma upcoming_in_member:
  "u \<in> set (upcomingBirthdays_in z cws now) \<longleftrightarrow>
     (\<exists>cw \<in> set cws. withNextBirthday_in z (setHours0_in z now) cw = Some u)
     \<and> inWindow_in z (setHours0_in z now)
         (setDate_in z (getDate (setHours0_in z now) + 30) (setHours0_in z now)) u"
  by (auto simp add: upcomingBirthdays_in_def Let_def set_map_filter_Some)

lemmas zone_eval =
  resolveNextBirthday_in_def setFullYear_in_def setHours0_in_def setDate_in_def getTime_def
  keeps_def


text \<open>
  In a zone without transitions (every local date and time exists, and local times are
  ordered as their instants) the operations in the zone are the operations above.
\<close>

lemma insort_key_strict_mono:
  fixes f :: "int \<Rightarrow> int"
  assumes "strict_mono f"
  shows "insort_key (\<lambda>x. f (k x)) a xs = insort_key k a xs"
  using assms by (induction xs) (simp_all add: strict_mono_less_eq)

lemma sort_key_strict_mono:
  fixes f :: "int \<Rightarrow> int"
  assumes "strict_mono f"
  shows "sort_key (\<lambda>x. f (k x)) xs = sort_key k xs"
  by (induction xs) (simp_all add: insort_key_strict_mono [OF assms])

lemma resolveNextBirthday_in_without_transitions:
  assumes "\<And>d. keeps z d" and "strict_mono (utc z)"
  shows "resolveNextBirthday_in z today stored = resolveNextBirthday today stored"
  using assms
  by (simp add: resolveNextBirthday_in_def resolveNextBirthday_def setFullYear_in_def
      getTime_def keeps_def Let_def strict_mono_less)

lemma upcomingBirthdays_in_without_transitions:
  assumes "\<And>d. keeps z d" and "strict_mono (utc z)"
  shows "upcomingBirthdays_in z cws now = upcomingBirthdays cws now"
proof -
  have w: "withNextBirthday_in z today = withNextBirthday today" for today
    by (rule ext)
      (simp add: withNextBirthday_in_def withNextBirthday_def
        resolveNextBirthday_in_without_transitions [OF assms] split: option.splits)
  have i: "inWindow_in z today (utc z n) = inWindow today n" for today n
    using assms(2)
    by (intro ext) (simp add: inWindow_in_def inWindow_def getTime_def strict_mono_less_eq)
  have "upcomingBirthdays_in z cws now
      = sort_key (\<lambda>cw. utc z (valueOf (nextBirthday cw)))
          (filter (inWindow (setHours0 now) (setDate (getDate (setHours0 now) + 30) (setHours0 now)))
             (List.map_filter (withNextBirthday (setHours0 now)) cws))"
    using assms(1)
    by (simp add: upcomingBirthdays_in_def Let_def setHours0_in_def setDate_in_def keeps_def
        getTime_def w i)
  also have "\<dots> = upcomingBirthdays cws now"
    by (simp add: upcomingBirthdays_def Let_def sort_key_strict_mono [OF assms(2)])
  finally show ?thesis .
qed


text \<open>
  The zone \<open>ex_europe\<close>: a local date and time that exists is not in the hour skipped on
  29 March 2026, and local times that exist are ordered as their instants.
\<close>

lemma DayFromYear_mono:
  assumes "y \<le> y'"
  shows "DayFromYear y \<le> DayFromYear y'"
  using assms
proof (induction y' rule: int_ge_induct)
  case base
  show ?case by simp
next
  case (step i)
  have "0 \<le> DaysInYear i" by (simp add: DaysInYear_def)
  with step.IH show ?case by (simp add: DayFromYear_Suc)
qed

lemma skipped_hour_fields:
  assumes v: "valid_Date d"
    and lo: "20541 * 86400000 + 7200000 \<le> valueOf d"
    and hi: "valueOf d < 20541 * 86400000 + 10800000"
  shows "getFullYear d = 2026 \<and> getMonth d = 2 \<and> getDate d = 29
    \<and> 7200000 \<le> timeWithinDay d \<and> timeWithinDay d < 10800000"
proof -
  from v have m: "0 \<le> getMonth d" "getMonth d \<le> 11"
    and dt: "1 \<le> getDate d" "getDate d \<le> DaysInMonth (getFullYear d) (getMonth d)"
    and t: "0 \<le> timeWithinDay d" "timeWithinDay d < 86400000"
    by (simp_all add: valid_Date_def msPerDay_def)
  have val: "valueOf d = Day d * 86400000 + timeWithinDay d"
    by (simp add: valueOf_def MakeDate_def msPerDay_def)
  from lo hi t have day: "Day d = 20541" unfolding val by arith
  with lo hi have time: "7200000 \<le> timeWithinDay d" "timeWithinDay d < 10800000"
    unfolding val by simp_all
  have "DayFromYear (getFullYear d) * 86400000 \<le> valueOf d"
    using valid_Date_lower [OF v] by (simp add: msPerDay_def)
  with hi have le: "DayFromYear (getFullYear d) \<le> 20541" by arith
  have "valueOf d < DayFromYear (getFullYear d + 1) * 86400000"
    using valid_Date_upper [OF v] by (simp add: msPerDay_def)
  with lo have gt: "20541 < DayFromYear (getFullYear d + 1)" by arith
  have y: "getFullYear d = 2026"
  proof (rule ccontr)
    assume "getFullYear d \<noteq> 2026"
    then consider "getFullYear d + 1 \<le> 2026" | "2027 \<le> getFullYear d" by linarith
    then show False
    proof cases
      case 1
      then have "DayFromYear (getFullYear d + 1) \<le> DayFromYear 2026" by (rule DayFromYear_mono)
      with gt show False by (simp add: DayFromYear_def)
    next
      case 2
      then have "DayFromYear 2027 \<le> DayFromYear (getFullYear d)" by (rule DayFromYear_mono)
      with le show False by (simp add: DayFromYear_def)
    qed
  qed
  from day have sum: "DayWithinYearOfMonth 2026 (getMonth d) + getDate d = 88"
    by (simp add: Day_def MakeDay_in_range [OF m] y DayFromYear_def)
  from m have "getMonth d = 2 \<and> getDate d = 29"
  proof (rule month_cases)
  qed (use sum dt in \<open>simp_all add: y DayWithinYearOfMonth_def DaysInMonth_def InLeapYear_def\<close>)
  with y time show ?thesis by simp
qed

lemma ex_europe_existing:
  assumes "valid_Date d" "keeps ex_europe d"
  shows "valueOf d < 20541 * 86400000 + 7200000 \<or> 20541 * 86400000 + 10800000 \<le> valueOf d"
proof (rule ccontr)
  assume "\<not> ?thesis"
  then have "20541 * 86400000 + 7200000 \<le> valueOf d"
    "valueOf d < 20541 * 86400000 + 10800000" by simp_all
  with assms(1) have "getFullYear d = 2026 \<and> getMonth d = 2 \<and> getDate d = 29
    \<and> 7200000 \<le> timeWithinDay d \<and> timeWithinDay d < 10800000"
    by (rule skipped_hour_fields)
  then have "timeWithinDay (settle ex_europe d) = timeWithinDay d + 3600000" by simp
  with assms(2) show False by (simp only: keeps_def)
qed

lemma ex_europe_order:
  assumes "valid_Date d" "valid_Date d'" "keeps ex_europe d" "keeps ex_europe d'"
  shows "(getTime ex_europe d < getTime ex_europe d') = (valueOf d < valueOf d')"
  using ex_europe_existing [OF assms(1,3)] ex_europe_existing [OF assms(2,4)]
  by (auto simp add: getTime_def)

text \<open>
  Claim C10 says that the resolved next birthday keeps the time of day of the stored
  birthday. It does not when that time is skipped on the resolved date: in central
  Europe, on 10 March 2026, the birthday stored as 29 March 1990, 02:00, resolves to
  29 March 2026, 03:00.
\<close>

theorem C10_time_of_day_moved_counterexample:
  "valid_Date ex_spring \<and> valid_Date ex_march
   \<and> timeWithinDay ex_spring = 7200000
   \<and> resolveNextBirthday_in ex_europe (setHours0_in ex_europe ex_march) ex_spring
      = \<lparr>getFullYear = 2026, getMonth = 2, getDate = 29, timeWithinDay = 10800000\<rparr>
   \<and> timeWithinDay (resolveNextBirthday_in ex_europe (setHours0_in ex_europe ex_march) ex_spring)
      = 10800000"
proof -
  have s: "valid_Date ex_spring" and m: "valid_Date ex_march"
    by (simp_all add: valid_Date_def DaysInMonth_def msPerDay_def)
  have t: "setHours0_in ex_europe ex_march
      = \<lparr>getFullYear = 2026, getMonth = 2, getDate = 10, timeWithinDay = 0\<rparr>"
    by (simp add: setHours0_in_def setHours0_def)
  have r: "resolveNextBirthday_in ex_europe (setHours0_in ex_europe ex_march) ex_spring
      = \<lparr>getFullYear = 2026, getMonth = 2, getDate = 29, timeWithinDay = 10800000\<rparr>"
    unfolding t by (simp add: zone_eval date_eval)
  from s m r show ?thesis by simp
qed

text \<open>
  Claim C10, amended. Let the local dates and times that exist in the zone be ordered as
  their instants, and let these exist in the zone: the midnight of today, the stored time
  of day on the birthday of this year and on the resolved date, and the midnight of the
  resolved date. Then the resolved next birthday keeps the time of day of the stored
  birthday, while \<open>today\<close> and \<open>next30Days\<close> are midnights; so a coworker whose resolved
  next birthday is on the thirtieth day after today is among the upcoming birthdays
  exactly when the stored time of day is midnight.
\<close>

theorem C10_time_of_day_at_window_end:
  assumes "\<And>d d'. valid_Date d \<Longrightarrow> valid_Date d' \<Longrightarrow> keeps z d \<Longrightarrow> keeps z d'
      \<Longrightarrow> (getTime z d < getTime z d') = (valueOf d < valueOf d')"
    and "valid_Date stored" and "valid_Date now"
    and "keeps z (setHours0 now)"
    and "keeps z (setFullYear (getFullYear now) stored)"
    and "keeps z (resolveNextBirthday (setHours0 now) stored)"
    and "keeps z (setHours0 (resolveNextBirthday (setHours0 now) stored))"
  shows "timeWithinDay (resolveNextBirthday_in z (setHours0_in z now) stored)
      = timeWithinDay stored
    \<and> timeWithinDay (setHours0_in z now) = 0
    \<and> setDate_in z (getDate (setHours0_in z now) + 30) (setHours0_in z now)
        = utc z (MakeDate (Day (setHours0_in z now) + 30) 0)
    \<and> (Day (resolveNextBirthday_in z (setHours0_in z now) stored)
          = Day (setHours0_in z now) + 30 \<longrightarrow>
        (\<forall>cw \<in> set cws. birthday cw = Some stored \<longrightarrow>
           (\<lparr>cid = cid cw, name = name cw, birthday = birthday cw,
              nextBirthday = resolveNextBirthday_in z (setHours0_in z now) stored\<rparr>
              \<in> set (upcomingBirthdays_in z cws now)
            \<longleftrightarrow> timeWithinDay stored = 0)))"
proof -
  let ?today = "setHours0 now"
  let ?r = "resolveNextBirthday ?today stored"
  note order = assms(1)
  have vt: "valid_Date ?today" using assms(3) by (rule setHours0_fields)
  have vr: "valid_Date ?r" using assms(2) by (rule resolveNextBirthday_valid)
  have vm: "valid_Date (setHours0 ?r)" using vr by (rule setHours0_fields)
  have today: "setHours0_in z now = ?today"
    using assms(4) by (simp add: setHours0_in_def keeps_def)
  have "resolveNextBirthday_in z (setHours0_in z now) stored = ?r"
    using assms(1-6) by (rule resolveNextBirthday_in_existing)
  then have r: "resolveNextBirthday_in z ?today stored = ?r"
    by (simp only: today)
  have t: "timeWithinDay ?r = timeWithinDay stored"
    using assms(2) by (rule time_resolveNextBirthday)
  have z: "timeWithinDay ?today = 0" by (simp add: setHours0_def)
  have n: "setDate_in z (getDate ?today + 30) ?today = utc z (MakeDate (Day ?today + 30) 0)"
    by (simp add: setDate_in_def setDate_def Day_def MakeDate_def MakeDay_def Let_def
        setHours0_def)
  have w: "\<lparr>cid = cid cw, name = name cw, birthday = birthday cw, nextBirthday = ?r\<rparr>
              \<in> set (upcomingBirthdays_in z cws now) \<longleftrightarrow> timeWithinDay stored = 0"
    if d: "Day ?r = Day ?today + 30" and cw: "cw \<in> set cws" "birthday cw = Some stored"
    for cw
  proof -
    let ?u = "\<lparr>cid = cid cw, name = name cw, birthday = birthday cw, nextBirthday = ?r\<rparr>"
    have v_today: "valueOf ?today = MakeDate (Day ?today) 0"
      by (simp add: valueOf_def z)
    have v_r: "valueOf ?r = MakeDate (Day ?today + 30) (timeWithinDay stored)"
      by (simp add: valueOf_def d t)
    have "Day (setHours0 ?r) = Day ?r" "timeWithinDay (setHours0 ?r) = 0"
      by (simp_all add: Day_def setHours0_def)
    then have v_m: "valueOf (setHours0 ?r) = MakeDate (Day ?today + 30) 0"
      by (simp add: valueOf_def d)
    have end_of_window: "utc z (MakeDate (Day ?today + 30) 0) = getTime z (setHours0 ?r)"
      by (simp add: getTime_def v_m)
    have lower: "getTime z ?today \<le> getTime z ?r \<longleftrightarrow> valueOf ?today \<le> valueOf ?r"
      using order [OF vr vt assms(6) assms(4)] by auto
    have upper: "getTime z ?r \<le> getTime z (setHours0 ?r)
        \<longleftrightarrow> valueOf ?r \<le> valueOf (setHours0 ?r)"
      using order [OF vm vr assms(7) assms(6)] by auto
    have "withNextBirthday_in z ?today cw = Some ?u"
      using cw(2) r by (simp add: withNextBirthday_in_def today)
    with cw(1) have "?u \<in> set (upcomingBirthdays_in z cws now)
        \<longleftrightarrow> inWindow_in z ?today (setDate_in z (getDate ?today + 30) ?today) ?u"
      unfolding upcoming_in_member today by blast
    also have "\<dots> \<longleftrightarrow> valueOf ?today \<le> valueOf ?r \<and> valueOf ?r \<le> valueOf (setHours0 ?r)"
      by (simp add: inWindow_in_def n end_of_window lower upper)
    also have "\<dots> \<longleftrightarrow> timeWithinDay stored \<le> 0"
      using assms(2) unfolding v_today v_r v_m
      by (simp add: MakeDate_def valid_Date_def msPerDay_def)
    also have "\<dots> \<longleftrightarrow> timeWithinDay stored = 0"
      using assms(2) by (auto simp add: valid_Date_def)
    finally show ?thesis .
  qed
  from t z n w show ?thesis unfolding today r by blast
qed

text \<open>
  In central Europe, on 10 March 2026, a birthday on 9 April stored with the time 02:00
  resolves to 02:00 on the thirtieth day after today, beyond the change of the clock, and
  the coworker is not among the upcoming birthdays.
\<close>

theorem C10_time_of_day_at_window_end_witness:
  "valid_Date ex_april \<and> valid_Date ex_march
   \<and> keeps ex_europe (setHours0 ex_march)
   \<and> keeps ex_europe (setFullYear (getFullYear ex_march) ex_april)
   \<and> keeps ex_europe (resolveNextBirthday (setHours0 ex_march) ex_april)
   \<and> keeps ex_europe (setHours0 (resolveNextBirthday (setHours0 ex_march) ex_april))
   \<and> Day (resolveNextBirthday_in ex_europe (setHours0_in ex_europe ex_march) ex_april)
      = Day (setHours0_in ex_europe ex_march) + 30
   \<and> timeWithinDay (resolveNextBirthday_in ex_europe (setHours0_in ex_europe ex_march) ex_april)
      = 7200000
   \<and> \<lparr>cid = ''g'', name = ''Gil'', birthday = Some ex_april,
       nextBirthday = resolveNextBirthday_in ex_europe (setHours0_in ex_europe ex_march) ex_april\<rparr>
      \<notin> set (upcomingBirthdays_in ex_europe
               [\<lparr>cid = ''g'', name = ''Gil'', birthday = Some ex_april\<rparr>] ex_march)"
proof -
  let ?g = "\<lparr>cid = ''g'', name = ''Gil'', birthday = Some ex_april\<rparr>"
  let ?r = "resolveNextBirthday_in ex_europe (setHours0_in ex_europe ex_march) ex_april"
  let ?midnight = "\<lparr>getFullYear = 2026, getMonth = 2, getDate = 10, timeWithinDay = 0\<rparr>"
  let ?resolved = "\<lparr>getFullYear = 2026, getMonth = 3, getDate = 9, timeWithinDay = 7200000\<rparr>"
  have v: "valid_Date ex_april" and vn: "valid_Date ex_march"
    by (simp_all add: valid_Date_def DaysInMonth_def msPerDay_def)
  have plain: "resolveNextBirthday (setHours0 ex_march) ex_april = ?resolved"
    by (simp add: date_eval)
  have k1: "keeps ex_europe (setHours0 ex_march)"
    and k2: "keeps ex_europe (setFullYear (getFullYear ex_march) ex_april)"
    by (simp_all add: keeps_def setHours0_def setFullYear_def DaysInMonth_def)
  have k3: "keeps ex_europe (resolveNextBirthday (setHours0 ex_march) ex_april)"
    and k4: "keeps ex_europe (setHours0 (resolveNextBirthday (setHours0 ex_march) ex_april))"
    unfolding plain by (simp_all add: keeps_def setHours0_def)
  have c: "timeWithinDay ?r = timeWithinDay ex_april
    \<and> timeWithinDay (setHours0_in ex_europe ex_march) = 0
    \<and> setDate_in ex_europe (getDate (setHours0_in ex_europe ex_march) + 30)
          (setHours0_in ex_europe ex_march)
        = utc ex_europe (MakeDate (Day (setHours0_in ex_europe ex_march) + 30) 0)
    \<and> (Day ?r = Day (setHours0_in ex_europe ex_march) + 30 \<longrightarrow>
        (\<forall>cw \<in> set [?g]. birthday cw = Some ex_april \<longrightarrow>
           (\<lparr>cid = cid cw, name = name cw, birthday = birthday cw, nextBirthday = ?r\<rparr>
              \<in> set (upcomingBirthdays_in ex_europe [?g] ex_march)
            \<longleftrightarrow> timeWithinDay ex_april = 0)))"
  proof (rule C10_time_of_day_at_window_end [OF _ v vn k1 k2 k3 k4])
    show "(getTime ex_europe d < getTime ex_europe d') = (valueOf d < valueOf d')"
      if "valid_Date d" "valid_Date d'" "keeps ex_europe d" "keeps ex_europe d'" for d d'
      using that by (rule ex_europe_order)
  qed
  have today: "setHours0_in ex_europe ex_march = ?midnight"
    by (simp add: setHours0_in_def setHours0_def)
  have r: "resolveNextBirthday_in ex_europe ?midnight ex_april = ?resolved"
    by (simp add: zone_eval date_eval)
  have "Day ?resolved = Day ?midnight + 30"
    by (simp add: Day_def MakeDay_def DayFromYear_def DayWithinYearOfMonth_def InLeapYear_def)
  then have d: "Day ?r = Day (setHours0_in ex_europe ex_march) + 30"
    by (simp only: today r)
  from c have "timeWithinDay ?r = timeWithinDay ex_april" by (rule conjunct1)
  then have t: "timeWithinDay ?r = 7200000" by (simp only: Date.simps)
  have g: "?g \<in> set [?g]" "birthday ?g = Some ex_april" by simp_all
  have "\<lparr>cid = cid ?g, name = name ?g, birthday = birthday ?g, nextBirthday = ?r\<rparr>
              \<in> set (upcomingBirthdays_in ex_europe [?g] ex_march)
            \<longleftrightarrow> timeWithinDay ex_april = 0"
    using c [THEN conjunct2, THEN conjunct2, THEN conjunct2, THEN mp, OF d,
        THEN bspec, OF g(1), THEN mp, OF g(2)] .
  then have n: "\<lparr>cid = ''g'', name = ''Gil'', birthday = Some ex_april, nextBirthday = ?r\<rparr>
      \<notin> set (upcomingBirthdays_in ex_europe [?g] ex_march)"
    by (simp only: coworker.simps Date.simps)
  from v vn k1 k2 k3 k4 d t n show ?thesis by (intro conjI)
qed

section \<open>The summary of a birthday card\<close>

lemma foldl_sum_amount:
  "foldl (\<lambda>sum c. sum + amount c) a xs = a + sum_list (map amount xs)"
  by (induction xs arbitrary: a) simp_all

lemma sum_list_filter_if:
  "sum_list (map f (filter P xs)) = (\<Sum>x\<leftarrow>xs. if P x then f x else (0::real))"
  by (induction xs) simp_all

lemma totalAmount_sum_list:
  "totalAmount (summarize y r s)
   = (\<Sum>e\<leftarrow>map snd (contributionData y r s). if status e = ''paid'' then amount e else 0)"
  by (simp add: summarize_def Let_def foldl_sum_amount sum_list_filter_if)

lemma paidCount_length:
  "paidCount (summarize y r s)
   = length (filter (\<lambda>e. status e = ''paid'') (map snd (contributionData y r s)))"
  by (simp add: summarize_def Let_def)

lemma distinct_map_of_key:
  assumes "distinct (map fst cd)"
  shows "map (\<lambda>k. f (the (map_of cd k))) (map fst cd) = map (\<lambda>p. f (snd p)) cd"
  using assms by (induction cd) (auto simp add: rev_image_eqI)

lemma sum_over_paid_keys:
  assumes "distinct (map fst cd)"
  shows "(\<Sum>k \<in> {k \<in> fst ` set cd. status (the (map_of cd k)) = ''paid''}.
            amount (the (map_of cd k)))
         = (\<Sum>e\<leftarrow>map snd cd. if status e = ''paid'' then amount e else 0)"
proof -
  let ?g = "\<lambda>e. if status e = ''paid'' then amount e else 0"
  have "(\<Sum>k \<in> {k \<in> fst ` set cd. status (the (map_of cd k)) = ''paid''}.
            amount (the (map_of cd k)))
      = (\<Sum>k \<in> set (map fst cd). ?g (the (map_of cd k)))"
    by (simp add: sum.inter_filter)
  also have "\<dots> = sum_list (map (\<lambda>k. ?g (the (map_of cd k))) (map fst cd))"
    using assms by (rule sum.distinct_set_conv_list)
  also have "\<dots> = sum_list (map (\<lambda>p. ?g (snd p)) cd)"
    by (simp only: distinct_map_of_key [OF assms, of ?g])
  also have "\<dots> = (\<Sum>e\<leftarrow>map snd cd. ?g e)"
    by (simp add: comp_def)
  finally show ?thesis .
qed

lemma card_paid_keys:
  assumes "distinct (map fst cd)"
  shows "card {k \<in> fst ` set cd. status (the (map_of cd k)) = ''paid''}
         = length (filter (\<lambda>e. status e = ''paid'') (map snd cd))"
proof -
  let ?P = "\<lambda>k. status (the (map_of cd k)) = ''paid''"
  have "length (filter (\<lambda>e. status e = ''paid'') (map snd cd))
      = length (filter (\<lambda>b. b) (map (\<lambda>p. status (snd p) = ''paid'') cd))"
    by (simp add: filter_map comp_def)
  also have "\<dots> = length (filter (\<lambda>b. b) (map ?P (map fst cd)))"
    by (simp only: distinct_map_of_key [OF assms, of "\<lambda>e. status e = ''paid''"])
  also have "\<dots> = length (filter ?P (map fst cd))"
    by (simp add: filter_map comp_def)
  also have "\<dots> = card ({k. ?P k} \<inter> set (map fst cd))"
    using assms by (rule distinct_length_filter)
  also have "{k. ?P k} \<inter> set (map fst cd) = {k \<in> fst ` set cd. ?P k}"
    by auto
  finally show ?thesis by simp
qed

lemma ex_id: "contributionId ''r'' 2025 = ''r_2025''"
  by (simp add: contributionId_def toString_def digits.simps)

lemma ex_data: "contributionData 2025 ''r'' ex_app
    = [(''x'', \<lparr>amount = 500, status = ''paid''\<rparr>), (''y'', \<lparr>amount = 200, status = ''pledged''\<rparr>)]"
  by (simp add: contributionData_def ex_id)

lemma ex_summary: "summarize 2025 ''r'' ex_app
    = \<lparr>paidCount = 1, totalAmount = 500, totalContributors = 3, progress = Some (100 / 3)\<rparr>"
  by (simp add: summarize_def Let_def ex_data quotient_def)

text \<open>
  Claim C2. For every contribution record, or none: the total amount is the sum of the
  amounts of exactly the entries whose status is \<open>paid\<close> (an entry with another status
  adds nothing), and the paid count is the number of those entries. With each contributor
  key once, as in every object, these are the sum and the number over the contributors
  whose entry is paid. Without a record both are 0.
\<close>

theorem C2_total_is_sum_of_paid:
  "totalAmount (summarize y r s)
     = (\<Sum>e\<leftarrow>map snd (contributionData y r s). if status e = ''paid'' then amount e else 0)
   \<and> paidCount (summarize y r s)
     = length (filter (\<lambda>e. status e = ''paid'') (map snd (contributionData y r s)))
   \<and> (distinct (map fst (contributionData y r s)) \<longrightarrow>
        totalAmount (summarize y r s)
          = (\<Sum>k \<in> {k \<in> fst ` set (contributionData y r s).
                      status (the (map_of (contributionData y r s) k)) = ''paid''}.
               amount (the (map_of (contributionData y r s) k)))
        \<and> paidCount (summarize y r s)
          = card {k \<in> fst ` set (contributionData y r s).
                   status (the (map_of (contributionData y r s) k)) = ''paid''})
   \<and> (map_of (contributions s) (contributionId r y) = None \<longrightarrow>
        totalAmount (summarize y r s) = 0 \<and> paidCount (summarize y r s) = 0)"
proof -
  have "map_of (contributions s) (contributionId r y) = None \<longrightarrow>
        totalAmount (summarize y r s) = 0 \<and> paidCount (summarize y r s) = 0"
    by (simp add: summarize_def Let_def contributionData_def)
  then show ?thesis
    using totalAmount_sum_list [of y r s] paidCount_length [of y r s]
      sum_over_paid_keys [of "contributionData y r s"]
      card_paid_keys [of "contributionData y r s"]
    by simp
qed


text \<open>
  With \<open>x\<close> having paid 500 and \<open>y\<close> having pledged 200, the total over the paid
  contributors is 500 and one contributor has paid.
\<close>

theorem C2_total_is_sum_of_paid_witness:
  "distinct (map fst (contributionData 2025 ''r'' ex_app))
   \<and> (\<Sum>k \<in> {k \<in> fst ` set (contributionData 2025 ''r'' ex_app).
                      status (the (map_of (contributionData 2025 ''r'' ex_app) k)) = ''paid''}.
               amount (the (map_of (contributionData 2025 ''r'' ex_app) k))) = 500
   \<and> card {k \<in> fst ` set (contributionData 2025 ''r'' ex_app).
                   status (the (map_of (contributionData 2025 ''r'' ex_app) k)) = ''paid''} = 1"
proof -
  have d: "distinct (map fst (contributionData 2025 ''r'' ex_app))"
    by (simp add: ex_data)
  have t: "totalAmount (summarize 2025 ''r'' ex_app) = 500"
    and p: "paidCount (summarize 2025 ''r'' ex_app) = 1"
    by (simp_all add: ex_summary)
  from C2_total_is_sum_of_paid [of 2025 "''r''" ex_app] d
  have "totalAmount (summarize 2025 ''r'' ex_app)
          = (\<Sum>k \<in> {k \<in> fst ` set (contributionData 2025 ''r'' ex_app).
                      status (the (map_of (contributionData 2025 ''r'' ex_app) k)) = ''paid''}.
               amount (the (map_of (contributionData 2025 ''r'' ex_app) k)))"
    and "paidCount (summarize 2025 ''r'' ex_app)
          = card {k \<in> fst ` set (contributionData 2025 ''r'' ex_app).
                   status (the (map_of (contributionData 2025 ''r'' ex_app) k)) = ''paid''}"
    by blast+
  with d t p show ?thesis by simp
qed

text \<open>
  Claim C8. The number of eligible contributors is the number of coworkers minus one,
  and 0 when there is at most one coworker. The progress is the paid count divided by
  that number, times 100, when the number is positive, and 0 otherwise; it is always a
  number: no quotient with divisor zero is formed.
\<close>

theorem C8_eligible_count_and_progress:
  "int (totalContributors (summarize y r s)) = max 0 (int (length (coworkers s)) - 1)
   \<and> progress (summarize y r s)
     = Some (if totalContributors (summarize y r s) > 0
             then real (paidCount (summarize y r s))
                    / real (totalContributors (summarize y r s)) * 100
             else 0)"
  by (simp add: summarize_def Let_def quotient_def)


text \<open>With four coworkers, three are eligible; one of them has paid: a third.\<close>

theorem C8_eligible_count_and_progress_witness:
  "totalContributors (summarize 2025 ''r'' ex_app) = 3
   \<and> paidCount (summarize 2025 ''r'' ex_app) = 1
   \<and> progress (summarize 2025 ''r'' ex_app) = Some (100 / 3)"
proof -
  have t: "totalContributors (summarize 2025 ''r'' ex_app) = 3"
    and p: "paidCount (summarize 2025 ''r'' ex_app) = 1"
    by (simp_all add: ex_summary)
  from C8_eligible_count_and_progress [of 2025 "''r''" ex_app]
  have "progress (summarize 2025 ''r'' ex_app)
     = Some (if totalContributors (summarize 2025 ''r'' ex_app) > 0
             then real (paidCount (summarize 2025 ''r'' ex_app))
                    / real (totalContributors (summarize 2025 ''r'' ex_app)) * 100
             else 0)"
    by (rule conjunct2)
  then have "progress (summarize 2025 ''r'' ex_app) = Some (100 / 3)"
    unfolding t p by simp
  with t p show ?thesis by (intro conjI)
qed

section \<open>Interactions on contributions\<close>

lemma contributionId_inj [simp]:
  "contributionId r y = contributionId r' y \<longleftrightarrow> r = r'"
  by (simp add: contributionId_def)

lemma map_of_setDoc_merge:
  "map_of (setDoc_merge k d docs) k' =
     (if k' = k
      then Some (case map_of docs k of
                   None \<Rightarrow> d
                 | Some stored \<Rightarrow>
                     d\<lparr>contributors := mergeContributors (contributors stored) (contributors d)\<rparr>)
      else map_of docs k')"
  by (simp add: setDoc_merge_def AList.update_conv' split: option.splits)

lemma map_of_unpaid_for_all:
  "map_of (foldl (\<lambda>acc cw. AList.update (cid cw) v acc) acc0 cws) c
   = (if c \<in> cid ` set cws then Some v else map_of acc0 c)"
  by (induction cws arbitrary: acc0) (auto simp add: AList.update_conv')

lemma contributionData_other_updateContribution:
  assumes "r \<noteq> r'"
  shows "contributionData y r (updateContribution y r' c' new s) = contributionData y r s"
  using assms
  by (simp add: updateContribution_def contributionData_def Let_def map_of_setDoc_merge
      split: option.splits)

lemma contributionData_no_user:
  assumes "user s = None"
  shows "updateContribution y r' c' new s = s"
  using assms by (simp add: updateContribution_def)

lemma cell_same_updateContribution:
  assumes "user s \<noteq> None"
  shows "cell y r c (updateContribution y r c' new s)
    = (if c = c' then new else cell y r c s)"
proof (cases "map_of (contributions s) (contributionId r y)")
  case None
  with assms show ?thesis
    by (auto simp add: updateContribution_def contributionData_def cell_def cellContribution_def
        Let_def map_of_setDoc_merge AList.update_conv' map_of_unpaid_for_all)
next
  case (Some stored)
  show ?thesis
  proof (cases "contributors stored")
    case None
    with Some assms show ?thesis
      by (auto simp add: updateContribution_def contributionData_def cell_def
          cellContribution_def Let_def map_of_setDoc_merge AList.update_conv'
          mergeContributors_def)
  next
    case (Some old)
    with \<open>map_of (contributions s) (contributionId r y) = Some stored\<close> assms show ?thesis
      by (auto simp add: updateContribution_def contributionData_def cell_def
          cellContribution_def Let_def map_of_setDoc_merge AList.update_conv'
          mergeContributors_def AList.merge_conv' map_add_def split: option.splits)
  qed
qed

lemma cell_updateContribution:
  "cell y r c (updateContribution y r' c' new s)
   = (if user s \<noteq> None \<and> r = r' \<and> c = c' then new else cell y r c s)"
proof (cases "user s = None")
  case True
  then show ?thesis by (simp add: contributionData_no_user)
next
  case False
  show ?thesis
  proof (cases "r = r'")
    case True
    with False show ?thesis using cell_same_updateContribution [of s y r c c' new] by auto
  next
    case False
    then show ?thesis
      by (simp add: cell_def contributionData_other_updateContribution)
  qed
qed

lemma modal_updateContribution [simp]:
  "isContributionModalOpen (updateContribution y r c new s) = isContributionModalOpen s"
  "contributionTarget (updateContribution y r c new s) = contributionTarget s"
  "user (updateContribution y r c new s) = user s"
  "coworkers (updateContribution y r c new s) = coworkers s"
  by (simp_all add: updateContribution_def Let_def split: option.splits)


lemma cell_modal_fields [simp]:
  "cell y r c (s\<lparr>isContributionModalOpen := b\<rparr>) = cell y r c s"
  "cell y r c (s\<lparr>contributionTarget := t\<rparr>) = cell y r c s"
  by (simp_all add: cell_def contributionData_def)

lemma cell_handlePledgeContribution:
  "cell y r c (handlePledgeContribution y a s)
   = (if user s \<noteq> None \<and> contributionTarget s = Some (r, c)
      then \<lparr>amount = a, status = ''pledged''\<rparr> else cell y r c s)"
proof (cases "contributionTarget s")
  case None
  then show ?thesis by (simp add: handlePledgeContribution_def)
next
  case (Some t)
  obtain r' c' where t: "t = (r', c')" by (cases t)
  with Some show ?thesis
    by (auto simp add: handlePledgeContribution_def cell_updateContribution)
qed

lemma modal_handlePledgeContribution [simp]:
  "isContributionModalOpen (handlePledgeContribution y a s) = False"
  by (simp add: handlePledgeContribution_def)

lemma three_statuses_distinct [simp]:
  "''unpaid'' \<noteq> ''pledged''" "''unpaid'' \<noteq> ''paid''" "''pledged'' \<noteq> ''paid''"
  by simp_all

lemma interact_click_step:
  assumes "pair_inv y r c s"
  shows "pair_inv y r c (interact pf y s (CellClick r' c'))
    \<and> (status (cell y r c (interact pf y s (CellClick r' c'))) = status (cell y r c s)
       \<or> cycle_step (status (cell y r c s))
            (status (cell y r c (interact pf y s (CellClick r' c')))))"
proof (cases "r' = r \<and> c' = c")
  case True
  with assms show ?thesis
    by (auto simp add: pair_inv_def handleContributionClick_def Let_def cell_updateContribution
        cycle_step_def)
next
  case False
  with assms show ?thesis
    by (auto simp add: pair_inv_def handleContributionClick_def Let_def cell_updateContribution)
qed

lemma interact_step:
  assumes "pair_inv y r c s"
  shows "pair_inv y r c (interact pf y s e)
    \<and> (status (cell y r c (interact pf y s e)) = status (cell y r c s)
       \<or> cycle_step (status (cell y r c s)) (status (cell y r c (interact pf y s e))))"
proof (cases e)
  case (CellClick r' c')
  with interact_click_step [OF assms] show ?thesis by simp
next
  case (PledgeAmount t)
  with assms show ?thesis
    by (auto simp add: pair_inv_def modalRendered_def cell_handlePledgeContribution
        cycle_step_def split: modal_result.splits)
next
  case CancelModal
  with assms show ?thesis
    by (auto simp add: pair_inv_def modalRendered_def)
qed

lemma run_Cons [simp]: "run pf y s (e # es) = run pf y (interact pf y s e) es"
  and run_Nil [simp]: "run pf y s [] = s"
  by (simp_all add: run_def)

lemma run_snoc: "run pf y s (es @ [e]) = interact pf y (run pf y s es) e"
  by (simp add: run_def)

lemma run_pair_inv:
  assumes "pair_inv y r c s"
  shows "pair_inv y r c (run pf y s es)"
  using assms
proof (induction es arbitrary: s)
  case Nil
  then show ?case by simp
next
  case (Cons e es)
  from interact_step [OF Cons.prems] have "pair_inv y r c (interact pf y s e)" by blast
  then show ?case by (simp add: Cons.IH)
qed

lemma initial_pair_inv:
  assumes "cell y r c s = \<lparr>amount = 0, status = ''unpaid''\<rparr>"
  shows "pair_inv y r c s"
  using assms by (simp add: pair_inv_def)


lemma user_interact [simp]: "user (interact pf y s e) = user s"
  by (cases e)
    (auto simp add: handleContributionClick_def handlePledgeContribution_def Let_def
      split: modal_result.splits option.splits)

lemma click_unpaid:
  assumes "status (cell y r c s) = ''unpaid''"
  shows "interact pf y s (CellClick r c)
    = s\<lparr>contributionTarget := Some (r, c), isContributionModalOpen := True\<rparr>"
  using assms by (simp add: handleContributionClick_def)

lemma click_pledged:
  assumes "status (cell y r c s) = ''pledged''" "user s \<noteq> None"
  shows "cell y r c (interact pf y s (CellClick r c))
    = \<lparr>amount = amount (cell y r c s), status = ''paid''\<rparr>"
  using assms by (simp add: handleContributionClick_def cell_updateContribution)

lemma click_paid:
  assumes "status (cell y r c s) = ''paid''" "user s \<noteq> None"
  shows "cell y r c (interact pf y s (CellClick r c)) = \<lparr>amount = 0, status = ''unpaid''\<rparr>"
  using assms by (simp add: handleContributionClick_def cell_updateContribution)

lemma pledge_positive:
  assumes "isContributionModalOpen s" "contributionTarget s = Some (r, c)" "user s \<noteq> None"
    and "pf t = Some a" "0 < a"
  shows "cell y r c (interact pf y s (PledgeAmount t)) = \<lparr>amount = a, status = ''pledged''\<rparr>"
  using assms
  by (simp add: modalRendered_def handleSave_def cell_handlePledgeContribution)

lemma pledge_rejected:
  assumes "pf t = None \<or> (\<exists>a. pf t = Some a \<and> a \<le> 0)"
  shows "contributions (interact pf y s (PledgeAmount t)) = contributions s"
  using assms by (auto simp add: handleSave_def)

lemma cancel_frame: "contributions (interact pf y s CancelModal) = contributions s"
  by simp

lemma full_cycle:
  assumes init: "cell y r c s0 = \<lparr>amount = 0, status = ''unpaid''\<rparr>"
    and u: "user s0 \<noteq> None" and p: "pf t = Some a" "0 < a"
  shows "map (\<lambda>es. cell y r c (run pf y s0 es))
           [[CellClick r c],
            [CellClick r c, PledgeAmount t],
            [CellClick r c, PledgeAmount t, CellClick r c],
            [CellClick r c, PledgeAmount t, CellClick r c, CellClick r c]]
         = [\<lparr>amount = 0, status = ''unpaid''\<rparr>,
            \<lparr>amount = a, status = ''pledged''\<rparr>,
            \<lparr>amount = a, status = ''paid''\<rparr>,
            \<lparr>amount = 0, status = ''unpaid''\<rparr>]"
proof -
  let ?s1 = "interact pf y s0 (CellClick r c)"
  let ?s2 = "interact pf y ?s1 (PledgeAmount t)"
  let ?s3 = "interact pf y ?s2 (CellClick r c)"
  let ?s4 = "interact pf y ?s3 (CellClick r c)"
  from init have "status (cell y r c s0) = ''unpaid''" by simp
  then have s1: "?s1 = s0\<lparr>contributionTarget := Some (r, c), isContributionModalOpen := True\<rparr>"
    by (rule click_unpaid)
  have c1: "cell y r c ?s1 = \<lparr>amount = 0, status = ''unpaid''\<rparr>"
    unfolding s1 using init by simp
  have "isContributionModalOpen ?s1" "contributionTarget ?s1 = Some (r, c)" "user ?s1 \<noteq> None"
    unfolding s1 using u by simp_all
  then have c2: "cell y r c ?s2 = \<lparr>amount = a, status = ''pledged''\<rparr>"
    using p by (rule pledge_positive)
  have "status (cell y r c ?s2) = ''pledged''" "user ?s2 \<noteq> None"
    using u by (simp_all add: c2 del: interact.simps)
  then have "cell y r c ?s3 = \<lparr>amount = amount (cell y r c ?s2), status = ''paid''\<rparr>"
    by (rule click_pledged)
  then have c3: "cell y r c ?s3 = \<lparr>amount = a, status = ''paid''\<rparr>"
    by (simp add: c2 del: interact.simps)
  have "status (cell y r c ?s3) = ''paid''" "user ?s3 \<noteq> None"
    using u by (simp_all add: c3 del: interact.simps)
  then have c4: "cell y r c ?s4 = \<lparr>amount = 0, status = ''unpaid''\<rparr>"
    by (rule click_paid)
  from c1 c2 c3 c4 show ?thesis by (simp del: interact.simps)
qed

text \<open>
  Claim C5. A click on an unpaid cell writes nothing and opens the prompt. Confirming the
  prompt with a text that parses to a positive amount makes the pair pledged with exactly
  that amount; confirming it with a text that is not a number or with an amount that is not
  positive, or closing it, leaves the contribution records as they were.
\<close>

theorem C5_pledge_prompt:
  assumes "user s \<noteq> None" and "status (cell y r c s) = ''unpaid''"
  shows "contributions (interact pf y s (CellClick r c)) = contributions s
    \<and> modalRendered (interact pf y s (CellClick r c))
    \<and> (pf t = Some a \<and> 0 < a \<longrightarrow>
         cell y r c (interact pf y (interact pf y s (CellClick r c)) (PledgeAmount t))
           = \<lparr>amount = a, status = ''pledged''\<rparr>)
    \<and> (pf t = None \<or> (\<exists>a. pf t = Some a \<and> a \<le> 0) \<longrightarrow>
         contributions (interact pf y (interact pf y s (CellClick r c)) (PledgeAmount t))
           = contributions s)
    \<and> contributions (interact pf y (interact pf y s (CellClick r c)) CancelModal)
        = contributions s"
proof -
  let ?s1 = "interact pf y s (CellClick r c)"
  have s1: "?s1 = s\<lparr>contributionTarget := Some (r, c), isContributionModalOpen := True\<rparr>"
    using assms(2) by (rule click_unpaid)
  have frame: "contributions ?s1 = contributions s"
    and rendered: "modalRendered ?s1"
    unfolding s1 by (simp_all add: modalRendered_def)
  have "isContributionModalOpen ?s1" "contributionTarget ?s1 = Some (r, c)" "user ?s1 \<noteq> None"
    unfolding s1 using assms(1) by simp_all
  then have ok: "pf t = Some a \<and> 0 < a \<longrightarrow>
      cell y r c (interact pf y ?s1 (PledgeAmount t)) = \<lparr>amount = a, status = ''pledged''\<rparr>"
    using pledge_positive [of ?s1 r c pf t a y] by blast
  have rej: "pf t = None \<or> (\<exists>a. pf t = Some a \<and> a \<le> 0) \<longrightarrow>
      contributions (interact pf y ?s1 (PledgeAmount t)) = contributions s"
    using pledge_rejected [of pf t y ?s1] frame by simp
  have can: "contributions (interact pf y ?s1 CancelModal) = contributions s"
    using cancel_frame [of pf y ?s1] frame by simp
  from frame rendered ok rej can show ?thesis by blast
qed


text \<open>
  In the example, \<open>z\<close> has no entry for the birthday of \<open>r\<close>: pledging 100 stores the
  pledge, and confirming the amount 0 changes no record.
\<close>

theorem C5_pledge_prompt_witness:
  "user ex_app \<noteq> None \<and> status (cell 2025 ''r'' ''z'' ex_app) = ''unpaid''
   \<and> ex_parseFloat ''100'' = Some 100 \<and> ex_parseFloat ''0'' = Some 0
   \<and> cell 2025 ''r'' ''z''
        (interact ex_parseFloat 2025 (interact ex_parseFloat 2025 ex_app (CellClick ''r'' ''z''))
           (PledgeAmount ''100''))
      = \<lparr>amount = 100, status = ''pledged''\<rparr>
   \<and> contributions
        (interact ex_parseFloat 2025 (interact ex_parseFloat 2025 ex_app (CellClick ''r'' ''z''))
           (PledgeAmount ''0''))
      = contributions ex_app"
proof -
  have u: "user ex_app \<noteq> None" by simp
  have i: "status (cell 2025 ''r'' ''z'' ex_app) = ''unpaid''"
    by (simp add: cell_def contributionData_def cellContribution_def ex_id)
  have p: "ex_parseFloat ''100'' = Some 100" "(0::real) < 100" by simp_all
  have z: "ex_parseFloat ''0'' = Some 0" "(0::real) \<le> 0" by simp_all
  from C5_pledge_prompt
    [where s = ex_app and y = 2025 and r = "''r''" and c = "''z''" and pf = ex_parseFloat
       and t = "''100''" and a = 100, OF u i] p
  have ok: "cell 2025 ''r'' ''z''
        (interact ex_parseFloat 2025 (interact ex_parseFloat 2025 ex_app (CellClick ''r'' ''z''))
           (PledgeAmount ''100''))
      = \<lparr>amount = 100, status = ''pledged''\<rparr>"
    by blast
  from C5_pledge_prompt
    [where s = ex_app and y = 2025 and r = "''r''" and c = "''z''" and pf = ex_parseFloat
       and t = "''0''", OF u i] z
  have rej: "contributions
        (interact ex_parseFloat 2025 (interact ex_parseFloat 2025 ex_app (CellClick ''r'' ''z''))
           (PledgeAmount ''0''))
      = contributions ex_app"
    by blast
  from u i p(1) z(1) ok rej show ?thesis by (intro conjI)
qed

section \<open>The contribution cycle, with the store and the snapshots apart\<close>

lemma updateContribution_as_setDoc:
  "updateContribution y r c new s =
     (case updateContribution_setDoc y y r c new s of
        None \<Rightarrow> s
      | Some (docId, data) \<Rightarrow> s\<lparr>contributions := setDoc_merge docId data (contributions s)\<rparr>)"
  by (simp add: updateContribution_def updateContribution_setDoc_def Let_def
      split: option.splits)

lemma arrived_in_step: "in_step w \<Longrightarrow> arrived w = react w"
  by (simp add: arrived_def in_step_def)

lemma arrived_Click:
  assumes "in_step w"
  shows "arrived (act pf w (Click y y y r c)) = interact pf y (react w) (CellClick r c)"
  using assms
  by (simp add: arrived_def in_step_def setDoc_def handleContributionClick_def
      handleContributionClick_react_def handleContributionClick_setDoc_def
      updateContribution_as_setDoc Let_def split: option.splits)

lemma arrived_Confirm:
  assumes "in_step w"
  shows "arrived (act pf w (Confirm y y t)) = interact pf y (react w) (PledgeAmount t)"
  using assms
  by (auto simp add: arrived_def in_step_def setDoc_def handlePledgeContribution_def
      handlePledgeContribution_react_def handlePledgeContribution_setDoc_def
      updateContribution_as_setDoc Let_def split: option.splits modal_result.splits)

lemma arrived_Cancel:
  "arrived (act pf w Cancel) = interact pf y (arrived w) CancelModal"
  by (simp add: arrived_def modalRendered_def)

lemma arrived_CoworkersSnapshot:
  "arrived (act pf w CoworkersSnapshot) = (arrived w)\<lparr>coworkers := coworkerDocs (db w)\<rparr>"
  by (simp add: arrived_def)

lemma arrived_ContributionsSnapshot:
  "arrived (act pf w ContributionsSnapshot) = arrived w"
  "in_step (act pf w ContributionsSnapshot)"
  by (simp_all add: arrived_def in_step_def)

lemma pair_inv_coworkers [simp]:
  "pair_inv y r c (s\<lparr>coworkers := cws\<rparr>) = pair_inv y r c s"
  by (simp add: pair_inv_def cell_def contributionData_def)

lemma cell_coworkers [simp]: "cell y r c (s\<lparr>coworkers := cws\<rparr>) = cell y r c s"
  by (simp add: cell_def contributionData_def)

lemma act_step:
  assumes inv: "pair_inv y r c (arrived w)" and t: "timely y w a"
  shows "pair_inv y r c (arrived (act pf w a))
    \<and> (status (storedEntry y r c (act pf w a)) = status (storedEntry y r c w)
       \<or> cycle_step (status (storedEntry y r c w)) (status (storedEntry y r c (act pf w a))))"
proof (cases a)
  case (Click renderYear idYear docYear r' c')
  with t have s: "in_step w" and y: "renderYear = y" "idYear = y" "docYear = y" by simp_all
  from inv s have "pair_inv y r c (react w)" by (simp add: arrived_in_step)
  from interact_step [OF this, of pf "CellClick r' c'"] show ?thesis
    unfolding storedEntry_def Click y arrived_Click [OF s] arrived_in_step [OF s] .
next
  case (Confirm idYear docYear amt)
  with t have s: "in_step w" and y: "idYear = y" "docYear = y" by simp_all
  from inv s have "pair_inv y r c (react w)" by (simp add: arrived_in_step)
  from interact_step [OF this, of pf "PledgeAmount amt"] show ?thesis
    unfolding storedEntry_def Confirm y arrived_Confirm [OF s] arrived_in_step [OF s] .
next
  case Cancel
  from interact_step [OF inv, of pf CancelModal] show ?thesis
    unfolding storedEntry_def Cancel arrived_Cancel [of pf w y] .
next
  case CoworkersSnapshot
  with inv show ?thesis
    by (simp add: storedEntry_def arrived_CoworkersSnapshot del: act.simps)
next
  case ContributionsSnapshot
  with inv show ?thesis
    by (simp add: storedEntry_def arrived_ContributionsSnapshot del: act.simps)
qed

lemma perform_Cons [simp]: "perform pf w (a # acts) = perform pf (act pf w a) acts"
  and perform_Nil [simp]: "perform pf w [] = w"
  by (simp_all add: perform_def)

lemma perform_snoc: "perform pf w (acts @ [a]) = act pf (perform pf w acts) a"
  by (simp add: perform_def)

lemma all_timely_snoc:
  "all_timely pf y w (acts @ [a])
   \<longleftrightarrow> all_timely pf y w acts \<and> timely y (perform pf w acts) a"
  by (induction acts arbitrary: w) (simp_all del: act.simps)

lemma perform_pair_inv:
  assumes "pair_inv y r c (arrived w)" "all_timely pf y w acts"
  shows "pair_inv y r c (arrived (perform pf w acts))"
  using assms
proof (induction acts arbitrary: w)
  case Nil
  then show ?case by simp
next
  case (Cons a acts)
  from Cons.prems have t: "timely y w a" and rest: "all_timely pf y (act pf w a) acts"
    by simp_all
  from act_step [OF Cons.prems(1) t] have "pair_inv y r c (arrived (act pf w a))" by blast
  then show ?case using rest by (simp add: Cons.IH del: act.simps)
qed

lemma user_act [simp]: "user (react (act pf w a)) = user (react w)"
  by (cases a)
    (auto simp add: handleContributionClick_react_def handlePledgeContribution_react_def Let_def
      split: modal_result.splits)

lemma stored_in_step: "in_step w \<Longrightarrow> storedEntry y r c w = cell y r c (react w)"
  by (simp add: storedEntry_def arrived_in_step)

lemma Click_unpaid:
  assumes "in_step w" "status (storedEntry y r c w) = ''unpaid''"
  shows "act pf w (Click y y y r c)
    = w\<lparr>react := (react w)\<lparr>contributionTarget := Some (r, c),
                              isContributionModalOpen := True\<rparr>\<rparr>"
  using assms
  by (simp add: stored_in_step handleContributionClick_react_def
      handleContributionClick_setDoc_def setDoc_def)

lemma Click_pledged:
  assumes "in_step w" "status (storedEntry y r c w) = ''pledged''" "user (react w) \<noteq> None"
  shows "storedEntry y r c (act pf w (Click y y y r c))
    = \<lparr>amount = amount (storedEntry y r c w), status = ''paid''\<rparr>"
proof -
  have "storedEntry y r c (act pf w (Click y y y r c))
      = cell y r c (interact pf y (react w) (CellClick r c))"
    by (simp only: storedEntry_def arrived_Click [OF assms(1)])
  also have "\<dots> = \<lparr>amount = amount (cell y r c (react w)), status = ''paid''\<rparr>"
    using assms by (intro click_pledged) (simp_all add: stored_in_step)
  finally show ?thesis using assms(1) by (simp add: stored_in_step del: act.simps)
qed

lemma Click_paid:
  assumes "in_step w" "status (storedEntry y r c w) = ''paid''" "user (react w) \<noteq> None"
  shows "storedEntry y r c (act pf w (Click y y y r c)) = \<lparr>amount = 0, status = ''unpaid''\<rparr>"
proof -
  have "storedEntry y r c (act pf w (Click y y y r c))
      = cell y r c (interact pf y (react w) (CellClick r c))"
    by (simp only: storedEntry_def arrived_Click [OF assms(1)])
  also have "\<dots> = \<lparr>amount = 0, status = ''unpaid''\<rparr>"
    using assms by (intro click_paid) (simp_all add: stored_in_step)
  finally show ?thesis .
qed

lemma Confirm_positive:
  assumes "in_step w" "isContributionModalOpen (react w)"
    "contributionTarget (react w) = Some (r, c)" "user (react w) \<noteq> None"
    and "pf t = Some amt" "0 < amt"
  shows "storedEntry y r c (act pf w (Confirm y y t)) = \<lparr>amount = amt, status = ''pledged''\<rparr>"
proof -
  have "storedEntry y r c (act pf w (Confirm y y t))
      = cell y r c (interact pf y (react w) (PledgeAmount t))"
    by (simp only: storedEntry_def arrived_Confirm [OF assms(1)])
  also have "\<dots> = \<lparr>amount = amt, status = ''pledged''\<rparr>"
    using assms(2-6) by (rule pledge_positive)
  finally show ?thesis .
qed

lemma stored_ContributionsSnapshot [simp]:
  "storedEntry y r c (act pf w ContributionsSnapshot) = storedEntry y r c w"
  by (simp add: storedEntry_def arrived_ContributionsSnapshot del: act.simps)

lemma whole_cycle:
  assumes init: "storedEntry y r c w0 = \<lparr>amount = 0, status = ''unpaid''\<rparr>"
    and s0: "in_step w0" and u: "user (react w0) \<noteq> None" and p: "pf t = Some amt" "0 < amt"
  shows "all_timely pf y w0
           [Click y y y r c, Confirm y y t, ContributionsSnapshot, Click y y y r c,
            ContributionsSnapshot, Click y y y r c]
       \<and> map (\<lambda>acts. storedEntry y r c (perform pf w0 acts))
           [[Click y y y r c],
            [Click y y y r c, Confirm y y t],
            [Click y y y r c, Confirm y y t, ContributionsSnapshot, Click y y y r c],
            [Click y y y r c, Confirm y y t, ContributionsSnapshot, Click y y y r c,
             ContributionsSnapshot, Click y y y r c]]
         = [\<lparr>amount = 0, status = ''unpaid''\<rparr>,
            \<lparr>amount = amt, status = ''pledged''\<rparr>,
            \<lparr>amount = amt, status = ''paid''\<rparr>,
            \<lparr>amount = 0, status = ''unpaid''\<rparr>]"
proof -
  let ?w1 = "act pf w0 (Click y y y r c)"
  let ?w2 = "act pf ?w1 (Confirm y y t)"
  let ?w3 = "act pf ?w2 ContributionsSnapshot"
  let ?w4 = "act pf ?w3 (Click y y y r c)"
  let ?w5 = "act pf ?w4 ContributionsSnapshot"
  let ?w6 = "act pf ?w5 (Click y y y r c)"
  from init have "status (storedEntry y r c w0) = ''unpaid''" by simp
  with s0 have w1: "?w1 = w0\<lparr>react := (react w0)\<lparr>contributionTarget := Some (r, c),
                              isContributionModalOpen := True\<rparr>\<rparr>"
    by (rule Click_unpaid)
  have c1: "storedEntry y r c ?w1 = \<lparr>amount = 0, status = ''unpaid''\<rparr>"
    unfolding w1 using init
    by (simp add: storedEntry_def arrived_def cell_def contributionData_def)
  have s1: "in_step ?w1" and "isContributionModalOpen (react ?w1)"
    "contributionTarget (react ?w1) = Some (r, c)" "user (react ?w1) \<noteq> None"
    unfolding w1 using s0 u by (simp_all add: in_step_def)
  then have c2: "storedEntry y r c ?w2 = \<lparr>amount = amt, status = ''pledged''\<rparr>"
    using p by (rule Confirm_positive)
  have s3: "in_step ?w3" by (rule arrived_ContributionsSnapshot(2))
  moreover have "status (storedEntry y r c ?w3) = ''pledged''"
    by (simp add: c2 del: act.simps)
  moreover have u3: "user (react ?w3) \<noteq> None" using u by (simp del: act.simps)
  ultimately have "storedEntry y r c ?w4
      = \<lparr>amount = amount (storedEntry y r c ?w3), status = ''paid''\<rparr>"
    by (rule Click_pledged)
  then have c4: "storedEntry y r c ?w4 = \<lparr>amount = amt, status = ''paid''\<rparr>"
    by (simp add: c2 del: act.simps)
  have s5: "in_step ?w5" by (rule arrived_ContributionsSnapshot(2))
  moreover have "status (storedEntry y r c ?w5) = ''paid''"
    by (simp add: c4 del: act.simps)
  moreover have "user (react ?w5) \<noteq> None" using u by (simp del: act.simps)
  ultimately have c6: "storedEntry y r c ?w6 = \<lparr>amount = 0, status = ''unpaid''\<rparr>"
    by (rule Click_paid)
  have "all_timely pf y w0
           [Click y y y r c, Confirm y y t, ContributionsSnapshot, Click y y y r c,
            ContributionsSnapshot, Click y y y r c]"
    using s0 s1 s3 s5 by (simp del: act.simps)
  moreover from c1 c2 c4 c6 have "map (\<lambda>acts. storedEntry y r c (perform pf w0 acts))
           [[Click y y y r c],
            [Click y y y r c, Confirm y y t],
            [Click y y y r c, Confirm y y t, ContributionsSnapshot, Click y y y r c],
            [Click y y y r c, Confirm y y t, ContributionsSnapshot, Click y y y r c,
             ContributionsSnapshot, Click y y y r c]]
         = [\<lparr>amount = 0, status = ''unpaid''\<rparr>,
            \<lparr>amount = amt, status = ''pledged''\<rparr>,
            \<lparr>amount = amt, status = ''paid''\<rparr>,
            \<lparr>amount = 0, status = ''unpaid''\<rparr>]"
    by (simp del: act.simps)
  ultimately show ?thesis by (rule conjI)
qed

lemma ex_r_2025 [simp]: "contributionId ''r'' 2025 = ''r_2025''"
  by (simp add: contributionId_def toString_def digits.simps)

lemma ex_r_2026 [simp]: "contributionId ''r'' 2026 = ''r_2026''"
  by (simp add: contributionId_def toString_def digits.simps)

text \<open>
  Claim C1, as stated, does not hold. The card of \<open>r\<close>, whose birthday is on 25 December,
  was rendered in December 2025, when \<open>y\<close> had pledged 200, and has not been rendered
  again when its cell for \<open>y\<close> is clicked in January 2026; the snapshots are those of the
  store. The handler reads the status pledged that the card passes and writes the record
  of 2026, which it builds from the coworkers, all unpaid: the pair of \<open>r\<close> and \<open>y\<close> in
  2026, which was unpaid with amount 0, is paid with amount 200 after this one click.
\<close>

theorem C1_click_in_new_year_counterexample:
  "in_step ex_world
   \<and> storedEntry 2026 ''r'' ''y'' ex_world = \<lparr>amount = 0, status = ''unpaid''\<rparr>
   \<and> storedEntry 2026 ''r'' ''y'' (act ex_parseFloat ex_world (Click 2025 2026 2026 ''r'' ''y''))
       = \<lparr>amount = 200, status = ''paid''\<rparr>"
  by (simp add: in_step_def storedEntry_def arrived_def cell_def contributionData_def
      cellContribution_def handleContributionClick_react_def handleContributionClick_setDoc_def
      updateContribution_setDoc_def setDoc_def setDoc_merge_def mergeContributors_def Let_def)

text \<open>
  Nor does it hold when the snapshot of the contribution records is behind the store.
  The store holds the record of 2025 for the birthday of \<open>r\<close>, in which \<open>y\<close> has pledged
  200; the snapshot has not arrived. A click on the cell of \<open>z\<close> and the pledge of 100
  write a record built from the coworkers, all unpaid, and the merge takes the pair of
  \<open>r\<close> and \<open>y\<close> from pledged back to unpaid.
\<close>

theorem stale_snapshot_resets_pledge:
  "storedEntry 2025 ''r'' ''y'' ex_behind = \<lparr>amount = 200, status = ''pledged''\<rparr>
   \<and> storedEntry 2025 ''r'' ''y''
        (perform ex_parseFloat ex_behind
           [Click 2025 2025 2025 ''r'' ''z'', Confirm 2025 2025 ''100''])
       = \<lparr>amount = 0, status = ''unpaid''\<rparr>"
  by (simp add: storedEntry_def arrived_def cell_def contributionData_def
      cellContribution_def handleContributionClick_react_def handleContributionClick_setDoc_def
      handlePledgeContribution_react_def handlePledgeContribution_setDoc_def
      modalRendered_def handleSave_def
      updateContribution_setDoc_def setDoc_def setDoc_merge_def mergeContributors_def Let_def)

text \<open>
  Claim C1, amended. Take a pair of a birthday coworker and a contributor that the store
  holds as unpaid with amount 0 in the year \<open>y\<close>, and a sequence of actions that is timely
  for \<open>y\<close>: each click and each confirmation is handled in the year \<open>y\<close>, on a card rendered
  in the year \<open>y\<close>, with the snapshot of the contribution records in step with the store.
  Then the status that the store holds for the pair is one of unpaid, pledged and paid
  throughout, and every action leaves it as it is or moves it along one edge of the cycle
  unpaid, pledged, paid, unpaid: none moves it from unpaid to paid, none from pledged to
  unpaid. The cycle is gone through by a timely sequence: for a signed-in user whose
  snapshot is in step, a click on the unpaid cell opens the prompt, confirming a positive
  amount makes the pair pledged with that amount, the click after the snapshot has arrived
  makes it paid with the same amount, and the next such click unpaid with amount 0.
\<close>

theorem C1_contribution_cycle:
  assumes "storedEntry y r c w0 = \<lparr>amount = 0, status = ''unpaid''\<rparr>"
    and "all_timely pf y w0 (acts @ [a])"
  shows "status (storedEntry y r c (perform pf w0 acts)) \<in> {''unpaid'', ''pledged'', ''paid''}
    \<and> (status (storedEntry y r c (perform pf w0 (acts @ [a])))
          = status (storedEntry y r c (perform pf w0 acts))
       \<or> cycle_step (status (storedEntry y r c (perform pf w0 acts)))
            (status (storedEntry y r c (perform pf w0 (acts @ [a])))))
    \<and> \<not> (status (storedEntry y r c (perform pf w0 acts)) = ''unpaid''
          \<and> status (storedEntry y r c (perform pf w0 (acts @ [a]))) = ''paid'')
    \<and> \<not> (status (storedEntry y r c (perform pf w0 acts)) = ''pledged''
          \<and> status (storedEntry y r c (perform pf w0 (acts @ [a]))) = ''unpaid'')
    \<and> (in_step w0 \<and> user (react w0) \<noteq> None \<and> pf t = Some amt \<and> 0 < amt \<longrightarrow>
         all_timely pf y w0
           [Click y y y r c, Confirm y y t, ContributionsSnapshot, Click y y y r c,
            ContributionsSnapshot, Click y y y r c]
         \<and> map (\<lambda>acts. storedEntry y r c (perform pf w0 acts))
           [[Click y y y r c],
            [Click y y y r c, Confirm y y t],
            [Click y y y r c, Confirm y y t, ContributionsSnapshot, Click y y y r c],
            [Click y y y r c, Confirm y y t, ContributionsSnapshot, Click y y y r c,
             ContributionsSnapshot, Click y y y r c]]
         = [\<lparr>amount = 0, status = ''unpaid''\<rparr>,
            \<lparr>amount = amt, status = ''pledged''\<rparr>,
            \<lparr>amount = amt, status = ''paid''\<rparr>,
            \<lparr>amount = 0, status = ''unpaid''\<rparr>])"
proof -
  let ?w = "perform pf w0 acts"
  from assms(2) have ts: "all_timely pf y w0 acts" and t: "timely y ?w a"
    by (simp_all add: all_timely_snoc)
  from assms(1) have "pair_inv y r c (arrived w0)"
    unfolding storedEntry_def by (rule initial_pair_inv)
  then have inv: "pair_inv y r c (arrived ?w)" using ts by (rule perform_pair_inv)
  then have three: "status (storedEntry y r c ?w) \<in> {''unpaid'', ''pledged'', ''paid''}"
    by (simp add: pair_inv_def storedEntry_def)
  from act_step [OF inv t, of pf]
  have step: "status (storedEntry y r c (perform pf w0 (acts @ [a])))
          = status (storedEntry y r c ?w)
       \<or> cycle_step (status (storedEntry y r c ?w))
            (status (storedEntry y r c (perform pf w0 (acts @ [a]))))"
    unfolding perform_snoc by blast
  then have no_skip: "\<not> (status (storedEntry y r c ?w) = ''unpaid''
          \<and> status (storedEntry y r c (perform pf w0 (acts @ [a]))) = ''paid'')"
    and no_back: "\<not> (status (storedEntry y r c ?w) = ''pledged''
          \<and> status (storedEntry y r c (perform pf w0 (acts @ [a]))) = ''unpaid'')"
    by (auto simp add: cycle_step_def)
  from three step no_skip no_back whole_cycle [OF assms(1), of pf t amt] show ?thesis
    by blast
qed

text \<open>
  The cycle of the contributor \<open>x\<close> for the birthday of \<open>r\<close> in 2025, with a pledge of
  100, before any contribution was recorded.
\<close>

theorem C1_contribution_cycle_witness:
  "storedEntry 2025 ''r'' ''x'' ex_new = \<lparr>amount = 0, status = ''unpaid''\<rparr>
   \<and> in_step ex_new \<and> user (react ex_new) \<noteq> None \<and> ex_parseFloat ''100'' = Some 100
   \<and> all_timely ex_parseFloat 2025 ex_new
        ([Click 2025 2025 2025 ''r'' ''x'', Confirm 2025 2025 ''100'', ContributionsSnapshot,
          Click 2025 2025 2025 ''r'' ''x'', ContributionsSnapshot]
         @ [Click 2025 2025 2025 ''r'' ''x''])
   \<and> map (\<lambda>acts. storedEntry 2025 ''r'' ''x'' (perform ex_parseFloat ex_new acts))
        [[Click 2025 2025 2025 ''r'' ''x''],
         [Click 2025 2025 2025 ''r'' ''x'', Confirm 2025 2025 ''100''],
         [Click 2025 2025 2025 ''r'' ''x'', Confirm 2025 2025 ''100'', ContributionsSnapshot,
          Click 2025 2025 2025 ''r'' ''x''],
         [Click 2025 2025 2025 ''r'' ''x'', Confirm 2025 2025 ''100'', ContributionsSnapshot,
          Click 2025 2025 2025 ''r'' ''x'', ContributionsSnapshot,
          Click 2025 2025 2025 ''r'' ''x'']]
      = [\<lparr>amount = 0, status = ''unpaid''\<rparr>,
         \<lparr>amount = 100, status = ''pledged''\<rparr>,
         \<lparr>amount = 100, status = ''paid''\<rparr>,
         \<lparr>amount = 0, status = ''unpaid''\<rparr>]
   \<and> status (storedEntry 2025 ''r'' ''x''
        (perform ex_parseFloat ex_new
           [Click 2025 2025 2025 ''r'' ''x'', Confirm 2025 2025 ''100'', ContributionsSnapshot,
            Click 2025 2025 2025 ''r'' ''x'', ContributionsSnapshot])) = ''paid''"
proof -
  let ?acts = "[Click 2025 2025 2025 ''r'' ''x'', Confirm 2025 2025 ''100'',
    ContributionsSnapshot, Click 2025 2025 2025 ''r'' ''x'', ContributionsSnapshot]"
  let ?a = "Click 2025 2025 2025 ''r'' ''x''"
  have i: "storedEntry 2025 ''r'' ''x'' ex_new = \<lparr>amount = 0, status = ''unpaid''\<rparr>"
    by (simp add: storedEntry_def arrived_def cell_def contributionData_def
        cellContribution_def)
  have s: "in_step ex_new" by (simp add: in_step_def)
  have u: "user (react ex_new) \<noteq> None" by simp
  have p: "ex_parseFloat ''100'' = Some 100" by simp
  have a: "(0::real) < 100" by simp
  from whole_cycle
    [where y = 2025 and r = "''r''" and c = "''x''" and ?w0.0 = ex_new
       and pf = ex_parseFloat and t = "''100''" and amt = 100, OF i s u p a]
  have t: "all_timely ex_parseFloat 2025 ex_new (?acts @ [?a])"
    by (simp only: append.simps)
  note cycle = C1_contribution_cycle
    [where y = 2025 and r = "''r''" and c = "''x''" and ?w0.0 = ex_new
       and pf = ex_parseFloat and t = "''100''" and amt = 100 and acts = ?acts
       and a = ?a, OF i t]
  from cycle s u p a
  have m: "map (\<lambda>acts. storedEntry 2025 ''r'' ''x'' (perform ex_parseFloat ex_new acts))
        [[Click 2025 2025 2025 ''r'' ''x''],
         [Click 2025 2025 2025 ''r'' ''x'', Confirm 2025 2025 ''100''],
         [Click 2025 2025 2025 ''r'' ''x'', Confirm 2025 2025 ''100'', ContributionsSnapshot,
          Click 2025 2025 2025 ''r'' ''x''],
         [Click 2025 2025 2025 ''r'' ''x'', Confirm 2025 2025 ''100'', ContributionsSnapshot,
          Click 2025 2025 2025 ''r'' ''x'', ContributionsSnapshot,
          Click 2025 2025 2025 ''r'' ''x'']]
      = [\<lparr>amount = 0, status = ''unpaid''\<rparr>,
         \<lparr>amount = 100, status = ''pledged''\<rparr>,
         \<lparr>amount = 100, status = ''paid''\<rparr>,
         \<lparr>amount = 0, status = ''unpaid''\<rparr>]"
    by blast
  from m have "storedEntry 2025 ''r'' ''x''
        (perform ex_parseFloat ex_new
           [Click 2025 2025 2025 ''r'' ''x'', Confirm 2025 2025 ''100'', ContributionsSnapshot,
            Click 2025 2025 2025 ''r'' ''x'']) = \<lparr>amount = 100, status = ''paid''\<rparr>"
    by (simp only: list.map list.inject)
  then have l: "status (storedEntry 2025 ''r'' ''x''
        (perform ex_parseFloat ex_new ?acts)) = ''paid''"
    by (simp only: perform_snoc [of _ _ "[Click 2025 2025 2025 ''r'' ''x'',
        Confirm 2025 2025 ''100'', ContributionsSnapshot, Click 2025 2025 2025 ''r'' ''x'']",
        simplified append.simps] stored_ContributionsSnapshot) simp
  from i s u p t m l show ?thesis by (intro conjI)
qed
section \<open>Stored amounts and keys\<close>

lemma set_update_cases:
  "p \<in> set (AList.update k v al) \<Longrightarrow> p = (k, v) \<or> p \<in> set al"
  by (induction al) (auto split: if_splits)

lemma set_merge_cases:
  "p \<in> set (AList.merge xs ys) \<Longrightarrow> p \<in> set xs \<or> p \<in> set ys"
proof (induction ys arbitrary: p)
  case Nil
  then show ?case by (simp add: AList.merge_def)
next
  case (Cons q ys)
  obtain k v where q: "q = (k, v)" by (cases q)
  from Cons.prems have "p \<in> set (AList.update k v (AList.merge xs ys))"
    by (simp add: AList.merge_def q)
  then have "p = (k, v) \<or> p \<in> set (AList.merge xs ys)" by (rule set_update_cases)
  then show ?case
  proof
    assume "p = (k, v)"
    then show ?thesis by (simp add: q)
  next
    assume "p \<in> set (AList.merge xs ys)"
    then have "p \<in> set xs \<or> p \<in> set ys" by (rule Cons.IH)
    then show ?thesis by auto
  qed
qed

lemma set_unpaid_for_all:
  "p \<in> set (foldl (\<lambda>acc cw. AList.update (cid cw) v acc) acc0 cws)
   \<Longrightarrow> snd p = v \<or> p \<in> set acc0"
proof (induction cws arbitrary: acc0)
  case Nil
  then show ?case by simp
next
  case (Cons cw cws)
  from Cons.IH [of "AList.update (cid cw) v acc0"] Cons.prems
  have "snd p = v \<or> p \<in> set (AList.update (cid cw) v acc0)" by simp
  then show ?case using set_update_cases [of p "cid cw" v acc0] by auto
qed

lemma unpaid_zero_map_update:
  assumes "unpaid_zero_map m" "status new = ''unpaid'' \<longrightarrow> amount new = 0"
  shows "unpaid_zero_map (AList.update c new m)"
  using assms set_update_cases [of _ c new m] by (fastforce simp add: unpaid_zero_map_def)

lemma unpaid_zero_map_merge:
  assumes "unpaid_zero_map m" "unpaid_zero_map m'"
  shows "unpaid_zero_map (AList.merge m m')"
  using assms set_merge_cases [of _ m m'] by (fastforce simp add: unpaid_zero_map_def)

lemma unpaid_zero_map_fresh:
  "unpaid_zero_map
     (foldl (\<lambda>acc cw. AList.update (cid cw) \<lparr>amount = 0, status = ''unpaid''\<rparr> acc) [] cws)"
  using set_unpaid_for_all [of _ "\<lparr>amount = 0, status = ''unpaid''\<rparr>" "[]" cws]
  by (fastforce simp add: unpaid_zero_map_def)

lemma unpaid_amounts_zero_stored:
  assumes "unpaid_amounts_zero s"
    and "map_of (contributions s) k = Some doc" "contributors doc = Some m"
  shows "unpaid_zero_map m"
proof -
  from assms(2) have "(k, doc) \<in> set (contributions s)" by (rule map_of_SomeD)
  with assms(1,3) show ?thesis by (fastforce simp add: unpaid_amounts_zero_def)
qed

lemma unpaid_amounts_zero_write:
  assumes inv: "unpaid_amounts_zero s"
    and w: "case w of None \<Rightarrow> True | Some m \<Rightarrow> unpaid_zero_map m"
  shows "unpaid_amounts_zero
    (s\<lparr>contributions :=
        AList.update k \<lparr>birthdayCoworkerId = r, year = y, contributors = w\<rparr> (contributions s)\<rparr>)"
  unfolding unpaid_amounts_zero_def
proof (clarify)
  fix k' doc
  assume "(k', doc) \<in> set (contributions (s\<lparr>contributions :=
        AList.update k \<lparr>birthdayCoworkerId = r, year = y, contributors = w\<rparr> (contributions s)\<rparr>))"
  then have "(k', doc) \<in> set (AList.update k
      \<lparr>birthdayCoworkerId = r, year = y, contributors = w\<rparr> (contributions s))"
    by simp
  then have "(k', doc) = (k, \<lparr>birthdayCoworkerId = r, year = y, contributors = w\<rparr>)
      \<or> (k', doc) \<in> set (contributions s)"
    by (rule set_update_cases)
  then show "case contributors doc of None \<Rightarrow> True | Some m \<Rightarrow> unpaid_zero_map m"
  proof
    assume "(k', doc) \<in> set (contributions s)"
    with inv show ?thesis by (fastforce simp add: unpaid_amounts_zero_def)
  next
    assume "(k', doc) = (k, \<lparr>birthdayCoworkerId = r, year = y, contributors = w\<rparr>)"
    then show ?thesis using w by simp
  qed
qed

lemma unpaid_amounts_zero_updateContribution:
  assumes inv: "unpaid_amounts_zero s"
    and new: "status new = ''unpaid'' \<longrightarrow> amount new = 0"
  shows "unpaid_amounts_zero (updateContribution y r c new s)"
proof (cases "user s")
  case None
  with inv show ?thesis by (simp add: updateContribution_def)
next
  case (Some u)
  show ?thesis
  proof (cases "map_of (contributions s) (contributionId r y)")
    case None
    have "unpaid_zero_map (AList.update c new
        (foldl (\<lambda>acc cw. AList.update (cid cw) \<lparr>amount = 0, status = ''unpaid''\<rparr> acc)
           [] (coworkers s)))"
      using unpaid_zero_map_fresh new by (rule unpaid_zero_map_update)
    then show ?thesis
      using Some None unpaid_amounts_zero_write [OF inv, of "Some _"]
      by (simp add: updateContribution_def Let_def setDoc_merge_def)
  next
    case stored: (Some st)
    show ?thesis
    proof (cases "contributors st")
      case None
      have "unpaid_zero_map []" by (simp add: unpaid_zero_map_def)
      then have "unpaid_zero_map (AList.update c new [])"
        using new by (rule unpaid_zero_map_update)
      then show ?thesis
        using Some stored None unpaid_amounts_zero_write [OF inv, of "Some _"]
        by (simp add: updateContribution_def Let_def setDoc_merge_def mergeContributors_def)
    next
      case old: (Some old)
      have o: "unpaid_zero_map old"
        using inv stored old by (rule unpaid_amounts_zero_stored)
      then have "unpaid_zero_map (AList.update c new old)"
        using new by (rule unpaid_zero_map_update)
      with o have "unpaid_zero_map (AList.merge old (AList.update c new old))"
        by (rule unpaid_zero_map_merge)
      then show ?thesis
        using Some stored old unpaid_amounts_zero_write [OF inv, of "Some _"]
        by (simp add: updateContribution_def Let_def setDoc_merge_def mergeContributors_def)
    qed
  qed
qed

lemma unpaid_amounts_zero_modal [simp]:
  "unpaid_amounts_zero (s\<lparr>isContributionModalOpen := b\<rparr>) = unpaid_amounts_zero s"
  "unpaid_amounts_zero (s\<lparr>contributionTarget := t\<rparr>) = unpaid_amounts_zero s"
  by (simp_all add: unpaid_amounts_zero_def)

lemma unpaid_amounts_zero_interact:
  assumes "unpaid_amounts_zero s"
  shows "unpaid_amounts_zero (interact pf y s e)"
proof (cases e)
  case (CellClick r c)
  with assms show ?thesis
    by (simp add: handleContributionClick_def Let_def unpaid_amounts_zero_updateContribution)
next
  case (PledgeAmount t)
  with assms show ?thesis
    by (auto simp add: handlePledgeContribution_def unpaid_amounts_zero_updateContribution
        split: modal_result.splits option.splits)
next
  case CancelModal
  with assms show ?thesis by simp
qed

lemma unpaid_amounts_zero_run:
  assumes "unpaid_amounts_zero s"
  shows "unpaid_amounts_zero (run pf y s es)"
  using assms
  by (induction es arbitrary: s) (simp_all add: unpaid_amounts_zero_interact del: interact.simps)

lemma unpaid_cell_amount:
  assumes "unpaid_amounts_zero s" "status (cell y r c s) = ''unpaid''"
  shows "amount (cell y r c s) = 0"
proof (cases "map_of (contributionData y r s) c")
  case None
  then show ?thesis by (simp add: cell_def cellContribution_def)
next
  case (Some e)
  then have e: "cell y r c s = e" by (simp add: cell_def cellContribution_def)
  from Some obtain doc where doc: "map_of (contributions s) (contributionId r y) = Some doc"
    and m: "contributors doc = Some (contributionData y r s)"
    by (auto simp add: contributionData_def split: option.splits)
  from doc have "(contributionId r y, doc) \<in> set (contributions s)" by (rule map_of_SomeD)
  moreover from Some have "(c, e) \<in> set (contributionData y r s)" by (rule map_of_SomeD)
  ultimately show ?thesis
    using assms m e by (fastforce simp add: unpaid_amounts_zero_def unpaid_zero_map_def)
qed

text \<open>
  Claim C7 says that a cell never shows an amount for an unpaid entry, whatever amount is
  stored. The cell shows the stored amount whenever it is positive and does not look at
  the status: a stored entry that is unpaid with the amount 50 is shown with 50.
\<close>

theorem C7_unpaid_amount_shown_counterexample:
  "status (cell 2025 ''r'' ''x'' ex_stale) = ''unpaid''
   \<and> renderedAmount (cell 2025 ''r'' ''x'' ex_stale) = Some 50"
  by (simp add: cell_def contributionData_def cellContribution_def ex_id renderedAmount_def)


text \<open>
  Claim C7, amended. A cell shows the stored amount exactly when it is positive, whatever
  the status. The interactions write the amount 0 with every unpaid entry: when every
  stored unpaid entry has the amount 0, this still holds after any sequence of
  interactions, and then the cell of every unpaid pair shows no amount.
\<close>

theorem C7_unpaid_shows_no_amount:
  assumes "unpaid_amounts_zero s0"
  shows "(status (cell y r c (run pf y s0 es)) = ''unpaid''
          \<longrightarrow> renderedAmount (cell y r c (run pf y s0 es)) = None)
    \<and> (renderedAmount e = (if 0 < amount e then Some (amount e) else None))"
proof -
  have "unpaid_amounts_zero (run pf y s0 es)"
    using assms by (rule unpaid_amounts_zero_run)
  then have "status (cell y r c (run pf y s0 es)) = ''unpaid''
          \<longrightarrow> renderedAmount (cell y r c (run pf y s0 es)) = None"
    using unpaid_cell_amount [of "run pf y s0 es" y r c] by (simp add: renderedAmount_def)
  then show ?thesis by (simp add: renderedAmount_def)
qed


text \<open>
  In the example \<open>x\<close> has paid 500; one click makes the pair unpaid, and the cell shows no
  amount.
\<close>

theorem C7_unpaid_shows_no_amount_witness:
  "unpaid_amounts_zero ex_app
   \<and> status (cell 2025 ''r'' ''x'' (run ex_parseFloat 2025 ex_app [CellClick ''r'' ''x''])) = ''unpaid''
   \<and> renderedAmount (cell 2025 ''r'' ''x'' (run ex_parseFloat 2025 ex_app [CellClick ''r'' ''x'']))
      = None"
proof -
  have u: "unpaid_amounts_zero ex_app"
    by (simp add: unpaid_amounts_zero_def unpaid_zero_map_def)
  have p: "status (cell 2025 ''r'' ''x'' ex_app) = ''paid''" "user ex_app \<noteq> None"
    by (simp_all add: cell_def contributionData_def cellContribution_def ex_id)
  have "cell 2025 ''r'' ''x'' (interact ex_parseFloat 2025 ex_app (CellClick ''r'' ''x''))
      = \<lparr>amount = 0, status = ''unpaid''\<rparr>"
    using p by (rule click_paid)
  then have s: "status (cell 2025 ''r'' ''x'' (run ex_parseFloat 2025 ex_app [CellClick ''r'' ''x'']))
      = ''unpaid''"
    by (simp del: interact.simps)
  from C7_unpaid_shows_no_amount
    [where ?s0.0 = ex_app and y = 2025 and r = "''r''" and c = "''x''" and pf = ex_parseFloat
      and es = "[CellClick ''r'' ''x'']", OF u] s
  have "renderedAmount (cell 2025 ''r'' ''x'' (run ex_parseFloat 2025 ex_app [CellClick ''r'' ''x'']))
      = None"
    by blast
  with u s show ?thesis by (intro conjI)
qed


text \<open>
  Claim C6 says that the birthday coworker is never a key of the contributors of his or
  her own record. When the first status change creates the record, \<open>updateContribution\<close>
  enters every coworker, the birthday coworker too: after \<open>x\<close> pledges 100 for the
  birthday of \<open>r\<close>, the new record has an entry for \<open>r\<close>.
\<close>

theorem C6_recipient_is_contributor_key:
  "contributionData 2025 ''r''
     (run ex_parseFloat 2025 ex_fresh [CellClick ''r'' ''x'', PledgeAmount ''100''])
   = [(''r'', \<lparr>amount = 0, status = ''unpaid''\<rparr>),
      (''x'', \<lparr>amount = 100, status = ''pledged''\<rparr>),
      (''y'', \<lparr>amount = 0, status = ''unpaid''\<rparr>),
      (''z'', \<lparr>amount = 0, status = ''unpaid''\<rparr>)]
   \<and> ''r'' \<in> fst ` set (contributionData 2025 ''r''
     (run ex_parseFloat 2025 ex_fresh [CellClick ''r'' ''x'', PledgeAmount ''100'']))"
proof -
  have "contributionData 2025 ''r''
     (run ex_parseFloat 2025 ex_fresh [CellClick ''r'' ''x'', PledgeAmount ''100''])
   = [(''r'', \<lparr>amount = 0, status = ''unpaid''\<rparr>),
      (''x'', \<lparr>amount = 100, status = ''pledged''\<rparr>),
      (''y'', \<lparr>amount = 0, status = ''unpaid''\<rparr>),
      (''z'', \<lparr>amount = 0, status = ''unpaid''\<rparr>)]"
    by (simp add: cell_def contributionData_def cellContribution_def handleContributionClick_def
        modalRendered_def handleSave_def handlePledgeContribution_def updateContribution_def
        setDoc_merge_def Let_def ex_id)
  then show ?thesis by simp
qed

section \<open>Deleting a coworker: the batch and its effect\<close>

lemma contributorUpdate_cases:
  assumes "contributorUpdate x (k, doc) = Some bw"
  obtains m where "contributors doc = Some m" "map_of m x \<noteq> None"
    "bw = update_contributors k (AList.delete x m)"
  using assms by (auto simp add: contributorUpdate_def split: option.splits if_splits)

lemma apply_update_fields [simp]:
  "coworkerDocs (apply_write st (update_contributors k m)) = coworkerDocs st"
  "contributionDocs (apply_write st (update_contributors k m))
     = AList.map_entry k (\<lambda>c. c\<lparr>contributors := Some m\<rparr>) (contributionDocs st)"
  by (simp_all add: apply_write_def)

lemma map_fst_map_entry: "map fst (AList.map_entry k f xs) = map fst xs"
  by (induction xs) auto

lemma updates_frame:
  "coworkerDocs (foldl apply_write st (List.map_filter (contributorUpdate x) ds))
     = coworkerDocs st
   \<and> map fst (contributionDocs (foldl apply_write st (List.map_filter (contributorUpdate x) ds)))
       = map fst (contributionDocs st)"
proof (induction ds arbitrary: st)
  case Nil
  show ?case by (simp add: map_filter_simps)
next
  case (Cons d ds)
  obtain k doc where d: "d = (k, doc)" by (cases d)
  show ?case
  proof (cases "contributorUpdate x (k, doc)")
    case None
    with Cons.IH [of st] d show ?thesis by (simp add: map_filter_simps)
  next
    case (Some bw)
    then obtain m where "bw = update_contributors k (AList.delete x m)"
      by (rule contributorUpdate_cases)
    with Some Cons.IH [of "apply_write st bw"] d show ?thesis
      by (simp add: map_filter_simps map_fst_map_entry)
  qed
qed

lemma delete_absent: "map_of m x = None \<Longrightarrow> AList.delete x m = m"
  by (simp add: map_of_eq_None_iff)

lemma updates_map_of:
  assumes "distinct (map fst ds)"
  shows "map_of (contributionDocs
            (foldl apply_write st (List.map_filter (contributorUpdate x) ds))) k
    = (case map_of (contributionDocs st) k of
         None \<Rightarrow> None
       | Some doc \<Rightarrow>
           Some (case map_of ds k of
                   None \<Rightarrow> doc
                 | Some d \<Rightarrow>
                     (case contributors d of
                        None \<Rightarrow> doc
                      | Some m \<Rightarrow>
                          if map_of m x \<noteq> None
                          then doc\<lparr>contributors := Some (AList.delete x m)\<rparr>
                          else doc)))"
  using assms
proof (induction ds arbitrary: st)
  case Nil
  show ?case by (simp add: map_filter_simps split: option.splits)
next
  case (Cons d ds)
  obtain k0 d0 where d: "d = (k0, d0)" by (cases d)
  from Cons.prems d have fresh: "map_of ds k0 = None" and dist: "distinct (map fst ds)"
    by (simp_all add: map_of_eq_None_iff)
  show ?case
  proof (cases "contributorUpdate x (k0, d0)")
    case None
    then have "contributors d0 = None \<or> (\<exists>m. contributors d0 = Some m \<and> map_of m x = None)"
      by (auto simp add: contributorUpdate_def split: option.splits if_splits)
    with None Cons.IH [OF dist, of st] d fresh show ?thesis
      by (auto simp add: map_filter_simps split: option.splits)
  next
    case (Some bw)
    then obtain m where m: "contributors d0 = Some m" "map_of m x \<noteq> None"
      and bw: "bw = update_contributors k0 (AList.delete x m)"
      by (rule contributorUpdate_cases)
    have "map_of (contributionDocs (foldl apply_write st
              (List.map_filter (contributorUpdate x) (d # ds)))) k
        = map_of (contributionDocs (foldl apply_write (apply_write st bw)
              (List.map_filter (contributorUpdate x) ds))) k"
      using Some d by (simp add: map_filter_simps)
    also note Cons.IH [OF dist, of "apply_write st bw"]
    finally show ?thesis
      using m fresh d
      by (auto simp add: bw AList.map_of_map_entry split: option.splits)
  qed
qed

lemma writable_updates:
  "list_all (writable st) (List.map_filter (contributorUpdate x) (contributionDocs st))"
proof -
  have "writable st bw"
    if "bw \<in> set (List.map_filter (contributorUpdate x) (contributionDocs st))" for bw
  proof -
    from that obtain k doc where kd: "(k, doc) \<in> set (contributionDocs st)"
      and "contributorUpdate x (k, doc) = Some bw"
      by (auto simp add: set_map_filter_Some)
    then obtain m where "bw = update_contributors k (AList.delete x m)"
      by (auto elim: contributorUpdate_cases)
    moreover from kd have "map_of (contributionDocs st) k \<noteq> None"
      by (simp add: map_of_eq_None_iff rev_image_eqI)
    ultimately show ?thesis by (simp add: writable_def)
  qed
  then show ?thesis by (simp add: list_all_iff)
qed

lemma commit_deleteBatch:
  assumes "in_step w"
  shows "commit (deleteBatch x (react w)) (db w)
   = Some (foldl apply_write
       ((db w)\<lparr>coworkerDocs := filter (\<lambda>cw. cid cw \<noteq> x) (coworkerDocs (db w))\<rparr>)
       (List.map_filter (contributorUpdate x) (contributionDocs (db w))))"
  using writable_updates [of "db w" x] assms
  by (simp add: commit_def deleteBatch_def writable_def apply_write_def in_step_def)

lemma afterDelete_organizer:
  assumes "isOrganizer (react w)" "in_step w"
  shows "afterDelete x w
   = foldl apply_write
       ((db w)\<lparr>coworkerDocs := filter (\<lambda>cw. cid cw \<noteq> x) (coworkerDocs (db w))\<rparr>)
       (List.map_filter (contributorUpdate x) (contributionDocs (db w)))"
  using assms
  by (simp add: afterDelete_def handleDeleteCoworker_def committed_def commit_deleteBatch)

lemma afterDelete_record:
  assumes "isOrganizer (react w)" "in_step w"
    and "distinct (map fst (contributionDocs (db w)))"
  shows "map_of (contributionDocs (afterDelete x w)) k
    = map_option (withoutContributor x) (map_of (contributionDocs (db w)) k)"
proof -
  let ?st0 = "(db w)\<lparr>coworkerDocs := filter (\<lambda>cw. cid cw \<noteq> x) (coworkerDocs (db w))\<rparr>"
  have "map_of (contributionDocs (afterDelete x w)) k
      = map_of (contributionDocs (foldl apply_write ?st0
          (List.map_filter (contributorUpdate x) (contributionDocs (db w))))) k"
    using assms(1,2) by (simp add: afterDelete_organizer)
  also note updates_map_of [OF assms(3), of ?st0 x k]
  finally show ?thesis
    by (auto simp add: withoutContributor_def delete_absent split: option.splits)
qed

lemma ex_delete:
  "afterDelete ''x'' ex_records_world
   = \<lparr>coworkerDocs =
        [\<lparr>cid = ''r'', name = ''Rey'', birthday =
            Some \<lparr>getFullYear = 1985, getMonth = 11, getDate = 25, timeWithinDay = 28800000\<rparr>\<rparr>,
         \<lparr>cid = ''y'', name = ''Yul'', birthday = None\<rparr>,
         \<lparr>cid = ''z'', name = ''Zoe'', birthday = None\<rparr>],
      contributionDocs =
        [(''r_2025'',
          \<lparr>birthdayCoworkerId = ''r'', year = 2025,
           contributors = Some [(''y'', \<lparr>amount = 200, status = ''pledged''\<rparr>)]\<rparr>),
         (''y_2025'',
          \<lparr>birthdayCoworkerId = ''y'', year = 2025, contributors = Some []\<rparr>),
         (''z_2025'',
          \<lparr>birthdayCoworkerId = ''z'', year = 2025,
           contributors = Some [(''y'', \<lparr>amount = 0, status = ''unpaid''\<rparr>)]\<rparr>)]\<rparr>"
  by (simp add: afterDelete_def handleDeleteCoworker_def committed_def commit_def
      deleteBatch_def contributorUpdate_def map_filter_simps writable_def apply_write_def)

text \<open>
  Claim C9, as stated, does not hold when the snapshot of the contribution records is
  behind the store. The store holds a record in which \<open>x\<close> has an entry; the snapshot
  has not arrived. The organizer deletes \<open>x\<close>: the batch, built from the snapshot, holds
  the deletion of the coworker document alone, and after the commit the document is gone
  and the record still has the entry of \<open>x\<close>.
\<close>

theorem C9_delete_behind_store_counterexample:
  "isOrganizer (react ex_behind)
   \<and> map (\<lambda>(k, doc). (k, map_option (map fst) (contributors doc)))
        (contributionDocs (db ex_behind))
      = [(''r_2025'', Some [''x'', ''y''])]
   \<and> handleDeleteCoworker ''x'' (react ex_behind) = [[delete_coworker ''x'']]
   \<and> commit [delete_coworker ''x''] (db ex_behind) = Some (afterDelete ''x'' ex_behind)
   \<and> map cid (coworkerDocs (afterDelete ''x'' ex_behind)) = [''r'', ''y'', ''z'']
   \<and> map (\<lambda>(k, doc). (k, map_option (map fst) (contributors doc)))
        (contributionDocs (afterDelete ''x'' ex_behind))
      = [(''r_2025'', Some [''x'', ''y''])]"
  by (simp add: afterDelete_def handleDeleteCoworker_def committed_def commit_def
      deleteBatch_def contributorUpdate_def map_filter_simps writable_def apply_write_def)

text \<open>
  Claim C9, amended. Let the organizer delete a coworker while the snapshot of the
  contribution records is in step with the store. The handler commits one batch, which
  holds the deletion of the coworker document and the updates of the contribution
  records, and the store accepts it. The store goes through two states, the one before
  and the one after the commit: no state in which the document is gone and a reference is
  left, or the other way round, is there to be seen. In the state after, the coworker
  document is gone and every contribution record is the record it was, with the key of
  the coworker stripped out of its contributors: no record has an entry for the coworker,
  the entries of the other contributors are as they were, and a record that had no entry
  for the coworker is as it was.
\<close>

theorem C9_delete_coworker:
  assumes "isOrganizer (react w)" and "in_step w"
    and "distinct (map fst (contributionDocs (db w)))"
  shows "handleDeleteCoworker x (react w) = [deleteBatch x (react w)]
    \<and> commit (deleteBatch x (react w)) (db w) = Some (afterDelete x w)
    \<and> history (db w) (handleDeleteCoworker x (react w)) = [db w, afterDelete x w]
    \<and> coworkerDocs (afterDelete x w) = filter (\<lambda>cw. cid cw \<noteq> x) (coworkerDocs (db w))
    \<and> map fst (contributionDocs (afterDelete x w)) = map fst (contributionDocs (db w))
    \<and> map_of (contributionDocs (afterDelete x w)) k
        = map_option (withoutContributor x) (map_of (contributionDocs (db w)) k)
    \<and> (\<forall>doc' m'. map_of (contributionDocs (afterDelete x w)) k = Some doc'
          \<and> contributors doc' = Some m' \<longrightarrow> map_of m' x = None)
    \<and> (\<forall>doc m. map_of (contributionDocs (db w)) k = Some doc \<and> contributors doc = Some m \<longrightarrow>
          (\<exists>doc' m'. map_of (contributionDocs (afterDelete x w)) k = Some doc'
             \<and> contributors doc' = Some m'
             \<and> (\<forall>i. i \<noteq> x \<longrightarrow> map_of m' i = map_of m i)))
    \<and> (\<forall>doc. map_of (contributionDocs (db w)) k = Some doc
          \<and> (case contributors doc of None \<Rightarrow> True | Some m \<Rightarrow> map_of m x = None)
          \<longrightarrow> map_of (contributionDocs (afterDelete x w)) k = Some doc)"
proof -
  let ?st' = "afterDelete x w"
  let ?st0 = "(db w)\<lparr>coworkerDocs := filter (\<lambda>cw. cid cw \<noteq> x) (coworkerDocs (db w))\<rparr>"
  have st': "?st' = foldl apply_write ?st0
       (List.map_filter (contributorUpdate x) (contributionDocs (db w)))"
    using assms(1,2) by (rule afterDelete_organizer)
  have one: "handleDeleteCoworker x (react w) = [deleteBatch x (react w)]"
    using assms(1) by (simp add: handleDeleteCoworker_def)
  have batch: "commit (deleteBatch x (react w)) (db w) = Some ?st'"
    by (simp add: commit_deleteBatch [OF assms(2)] st')
  have hist: "history (db w) (handleDeleteCoworker x (react w)) = [db w, ?st']"
    unfolding one by (simp add: committed_def batch)
  have cws: "coworkerDocs ?st' = filter (\<lambda>cw. cid cw \<noteq> x) (coworkerDocs (db w))"
    and keys: "map fst (contributionDocs ?st') = map fst (contributionDocs (db w))"
    unfolding st' using updates_frame [of ?st0 x "contributionDocs (db w)"] by simp_all
  have rec: "map_of (contributionDocs ?st') k
        = map_option (withoutContributor x) (map_of (contributionDocs (db w)) k)"
    using assms by (rule afterDelete_record)
  have gone: "\<forall>doc' m'. map_of (contributionDocs ?st') k = Some doc'
          \<and> contributors doc' = Some m' \<longrightarrow> map_of m' x = None"
    unfolding rec by (auto simp add: withoutContributor_def AList.delete_conv')
  have others: "\<forall>doc m. map_of (contributionDocs (db w)) k = Some doc
          \<and> contributors doc = Some m \<longrightarrow>
          (\<exists>doc' m'. map_of (contributionDocs ?st') k = Some doc'
             \<and> contributors doc' = Some m'
             \<and> (\<forall>i. i \<noteq> x \<longrightarrow> map_of m' i = map_of m i))"
    unfolding rec by (auto simp add: withoutContributor_def)
  have untouched: "\<forall>doc. map_of (contributionDocs (db w)) k = Some doc
          \<and> (case contributors doc of None \<Rightarrow> True | Some m \<Rightarrow> map_of m x = None)
          \<longrightarrow> map_of (contributionDocs ?st') k = Some doc"
    unfolding rec
    by (auto simp add: withoutContributor_def delete_absent split: option.splits)
  from one batch hist cws keys rec gone others untouched show ?thesis by (intro conjI)
qed

text \<open>
  Deleting \<open>x\<close>, who has an entry in two of the three records, with the snapshot in step:
  one batch of three writes, two states of the store, and in the second the coworkers
  \<open>r\<close>, \<open>y\<close> and \<open>z\<close> and no record with an entry for \<open>x\<close>.
\<close>

theorem C9_delete_coworker_witness:
  "isOrganizer (react ex_records_world) \<and> in_step ex_records_world
   \<and> distinct (map fst (contributionDocs (db ex_records_world)))
   \<and> handleDeleteCoworker ''x'' (react ex_records_world)
       = [[delete_coworker ''x'',
           update_contributors ''r_2025'' [(''y'', \<lparr>amount = 200, status = ''pledged''\<rparr>)],
           update_contributors ''y_2025'' []]]
   \<and> history (db ex_records_world) (handleDeleteCoworker ''x'' (react ex_records_world))
       = [db ex_records_world, afterDelete ''x'' ex_records_world]
   \<and> map cid (coworkerDocs (afterDelete ''x'' ex_records_world)) = [''r'', ''y'', ''z'']
   \<and> map (\<lambda>(k, doc). (k, map_option (map fst) (contributors doc)))
        (contributionDocs (afterDelete ''x'' ex_records_world))
      = [(''r_2025'', Some [''y'']), (''y_2025'', Some []), (''z_2025'', Some [''y''])]"
proof -
  have o: "isOrganizer (react ex_records_world)" by simp
  have s: "in_step ex_records_world" by (simp add: in_step_def)
  have d: "distinct (map fst (contributionDocs (db ex_records_world)))" by simp
  note delete = C9_delete_coworker [OF o s d, of "''x''" "''r_2025''"]
  have b: "handleDeleteCoworker ''x'' (react ex_records_world)
       = [[delete_coworker ''x'',
           update_contributors ''r_2025'' [(''y'', \<lparr>amount = 200, status = ''pledged''\<rparr>)],
           update_contributors ''y_2025'' []]]"
    unfolding delete [THEN conjunct1]
    by (simp add: deleteBatch_def contributorUpdate_def map_filter_simps)
  have h: "history (db ex_records_world) (handleDeleteCoworker ''x'' (react ex_records_world))
       = [db ex_records_world, afterDelete ''x'' ex_records_world]"
    using delete [THEN conjunct2, THEN conjunct2, THEN conjunct1] .
  have c: "map cid (coworkerDocs (afterDelete ''x'' ex_records_world)) = [''r'', ''y'', ''z'']"
    unfolding ex_delete by simp
  have r: "map (\<lambda>(k, doc). (k, map_option (map fst) (contributors doc)))
        (contributionDocs (afterDelete ''x'' ex_records_world))
      = [(''r_2025'', Some [''y'']), (''y_2025'', Some []), (''z_2025'', Some [''y''])]"
    unfolding ex_delete by simp
  from o s d b h c r show ?thesis by (intro conjI)
qed
end
